theory Spec2Isabelle
  imports Main "HOL-Library.AList" "HOL-Library.Multiset" "HOL-Library.Sublist"
begin

section \<open>Data model\<close>

text \<open>
  A Python \<open>dict\<close> keeps its keys in insertion order and the translator depends on that
  order (first-encountered representative, batch order, chunking of a failed batch), so a
  dictionary is an association list with distinct keys.  \<open>d[k] = v\<close> is
  \<^const>\<open>AList.update\<close>: it overwrites in place when the key is present and appends
  otherwise.  A Python \<open>str\<close> is a list of characters; where only its length and equality
  matter the character type is left open (\<open>'c list\<close>), where code points matter it is a list
  of code points (\<open>nat list\<close>).
\<close>

type_synonym ('k, 'v) dict = "('k \<times> 'v) list"

definition keys_of :: "('k, 'v) dict \<Rightarrow> 'k list" where
  "keys_of d = map fst d"

text \<open>\<open>k in d\<close>\<close>

definition has_key :: "('k, 'v) dict \<Rightarrow> 'k \<Rightarrow> bool" where
  "has_key d k = (k \<in> set (map fst d))"

text \<open>\<open>d.update(other)\<close>, and the dictionary built from a sequence of pairs
  (\<open>dict(pairs)\<close>, a dict comprehension).\<close>

definition dict_update :: "('k, 'v) dict \<Rightarrow> ('k, 'v) dict \<Rightarrow> ('k, 'v) dict" where
  "dict_update d other = fold (\<lambda>kv acc. AList.update (fst kv) (snd kv) acc) other d"

definition dict_of :: "('k \<times> 'v) list \<Rightarrow> ('k, 'v) dict" where
  "dict_of pairs = dict_update [] pairs"

text \<open>The exceptions the modelled code can raise.  \<open>JSONDecodeError\<close> and \<open>APIError\<close> carry
  their message.\<close>

datatype 'c error =
    JSONDecodeError "'c list"
  | APIError "'c list"
  | AttributeError
  | TypeError
  | KeyError
  | IndexError
  | ZeroDivisionError
  | UnicodeEncodeError
  | OSError

section \<open>Tokenizer / estimator\<close>

text \<open>
  \<open>app13.py\<close>, nested in \<open>split_dict_into_smart_batches\<close>:
  \<^verbatim>\<open>
  def estimate_tokens(text):
      if text is None:
          return 0
      return len(str(text)) // 4 + 1  # Add 1 to round up
  \<close>
\<close>

definition estimate_tokens :: "'c list option \<Rightarrow> int" where
  "estimate_tokens text =
     (case text of None \<Rightarrow> 0 | Some s \<Rightarrow> int (length s) div 4 + 1)"

text \<open>
  \<open>pptx_translator.py\<close>, the language-aware variant, over the code points of the text:
  \<^verbatim>\<open>
  def estimate_tokens(text):
      if text is None:
          return 0
      text_str = str(text)
      cjk_chars = sum(1 for c in text_str if ord(c) > 0x4E00 and ord(c) < 0x9FFF)
      ascii_chars = len(text_str) - cjk_chars
      token_estimate = (ascii_chars // 4) + (cjk_chars // 1.5) + 1  # Add 1 to round up
      return int(token_estimate)
  \<close>
  \<open>cjk_chars // 1.5\<close> is a float floor division.  For a count \<open>n\<close> below \<open>2^53\<close> both \<open>n\<close>
  and \<open>1.5\<close> are exact floats, the remainder and the quotient are exact, and the
  result is the integer \<open>\<lfloor>2n/3\<rfloor>\<close>; the sum and \<open>int\<close> are then exact too.
\<close>

definition is_cjk :: "nat \<Rightarrow> bool" where
  "is_cjk c = (c > 0x4E00 \<and> c < 0x9FFF)"

definition estimate_tokens_cjk :: "nat list option \<Rightarrow> int" where
  "estimate_tokens_cjk text =
     (case text of
        None \<Rightarrow> 0
      | Some text_str \<Rightarrow>
          (let cjk_chars = int (length (filter is_cjk text_str));
               ascii_chars = int (length text_str) - cjk_chars
           in ascii_chars div 4 + (2 * cjk_chars) div 3 + 1))"

section \<open>Batch partitioner\<close>

text \<open>
  \<open>app13.py\<close>, \<open>split_dict_into_smart_batches(input_dict, max_input_tokens, prompt_tokens)\<close>.
  \<open>items.sort(key=..., reverse=True)\<close> is a stable sort by descending estimate, which is
  \<^const>\<open>sort_key\<close> on the negated estimate.
\<close>

definition item_tokens :: "'c list \<times> 'c list \<Rightarrow> int" where
  "item_tokens kv = estimate_tokens (Some (fst kv)) + estimate_tokens (Some (snd kv)) + 10"

text \<open>The \<open>for key, value in items\<close> loop, followed by \<open>if current_batch: batches.append(...)\<close>.\<close>

fun batch_loop ::
  "int \<Rightarrow> int \<Rightarrow> ('c list \<times> 'c list) list \<Rightarrow> ('c list, 'c list) dict list \<Rightarrow>
   ('c list, 'c list) dict \<Rightarrow> int \<Rightarrow> ('c list, 'c list) dict list" where
  "batch_loop max_input_tokens prompt_tokens [] batches current_batch current_token_count =
     (if current_batch \<noteq> [] then batches @ [current_batch] else batches)"
| "batch_loop max_input_tokens prompt_tokens (kv # items) batches current_batch current_token_count =
     (if current_token_count + item_tokens kv > max_input_tokens \<and> current_batch \<noteq> []
      then batch_loop max_input_tokens prompt_tokens items (batches @ [current_batch])
             (AList.update (fst kv) (snd kv) []) (prompt_tokens + item_tokens kv)
      else batch_loop max_input_tokens prompt_tokens items batches
             (AList.update (fst kv) (snd kv) current_batch) (current_token_count + item_tokens kv))"

text \<open>
  After the loop the function prints a summary; its last line divides by
  \<open>total_items = len(input_dict)\<close>:
  \<^verbatim>\<open>
  avg_batch_size = sum(batch_sizes) / len(batches) if batches else 0
  ...
  print(f"Estimated token usage efficiency: {(sum(batch_sizes)/total_items)*100:.1f}%")
  return batches
  \<close>
  so on an empty dictionary it raises \<open>ZeroDivisionError\<close> before it returns.
\<close>

definition split_dict_into_smart_batches ::
  "('c list, 'c list) dict \<Rightarrow> int \<Rightarrow> int \<Rightarrow> 'c error + ('c list, 'c list) dict list" where
  "split_dict_into_smart_batches input_dict max_input_tokens prompt_tokens =
     (let items = sort_key (\<lambda>x. - estimate_tokens (Some (snd x))) input_dict;
          batches = batch_loop max_input_tokens prompt_tokens items [] [] prompt_tokens;
          total_items = length input_dict
      in if total_items = 0 then Inl ZeroDivisionError else Inr batches)"

section \<open>Deduplicator\<close>

text \<open>
  \<open>app13.py\<close>, \<open>deduplicate_content\<close> (nested in \<open>translate_text\<close>).  First loop:
  \<^verbatim>\<open>
  for key, value in input_dict.items():
      if value in content_to_keys: content_to_keys[value].append(key)
      else:                        content_to_keys[value] = [key]
  \<close>
\<close>

fun group_content :: "('k, 'v) dict \<Rightarrow> ('v, 'k list) dict \<Rightarrow> ('v, 'k list) dict" where
  "group_content [] content_to_keys = content_to_keys"
| "group_content (kv # rest) content_to_keys =
     (case map_of content_to_keys (snd kv) of
        Some ks \<Rightarrow> group_content rest (AList.update (snd kv) (ks @ [fst kv]) content_to_keys)
      | None \<Rightarrow> group_content rest (AList.update (snd kv) [fst kv] content_to_keys))"

text \<open>
  Second loop; \<open>keys[0]\<close> raises \<open>IndexError\<close> on an empty list:
  \<^verbatim>\<open>
  for content, keys in content_to_keys.items():
      representative_key = keys[0]
      unique_content[representative_key] = content
      for key in keys:
          duplicates_map[key] = representative_key
  \<close>
\<close>

fun assign_reps ::
  "('v, 'k list) dict \<Rightarrow> ('k, 'v) dict \<Rightarrow> ('k, 'k) dict \<Rightarrow>
   'c error + (('k, 'v) dict \<times> ('k, 'k) dict)" where
  "assign_reps [] unique_content duplicates_map = Inr (unique_content, duplicates_map)"
| "assign_reps (g # rest) unique_content duplicates_map =
     (case snd g of
        [] \<Rightarrow> Inl IndexError
      | representative_key # _ \<Rightarrow>
          assign_reps rest
            (AList.update representative_key (fst g) unique_content)
            (fold (\<lambda>key d. AList.update key representative_key d) (snd g) duplicates_map))"

definition deduplicate_content ::
  "('k, 'v) dict \<Rightarrow> 'c error + (('k, 'v) dict \<times> ('k, 'k) dict)" where
  "deduplicate_content input_dict = assign_reps (group_content input_dict []) [] []"

text \<open>The spec's words: the first-encountered id whose text is \<open>v\<close>.\<close>

definition first_id_with_text :: "('k, 'v) dict \<Rightarrow> 'v \<Rightarrow> 'k option" where
  "first_id_with_text fragments v = map_option fst (find (\<lambda>kv. snd kv = v) fragments)"

section \<open>Job state\<close>

text \<open>
  A value inside a JSON mapping is a string or something else (number, list, ...), carried
  as is; the translations are a mapping from fragment ids to such values.
\<close>

datatype ('c, 'o) jval = JStr "'c list" | JOther 'o

type_synonym ('c, 'o) translated = "('c list, ('c, 'o) jval) dict"

text \<open>
  A batch id is the string \<open>f"batch_{batch_index+1}"\<close>, a sub-batch id is
  \<open>f"{batch_id}_sub_{i+1}"\<close>; both formats are injective, so the ids are a datatype.  The same
  value labels the request (\<open>batch_index+1\<close>, \<open>f"{batch_id}.{i+1}"\<close>).
\<close>

datatype bid = Batch nat | Sub bid nat

text \<open>
  The persisted job state (\<open>recovery_state\<close>); the fields that only describe the job
  (presentation id, languages, item count, time stamps) are left out.  \<open>duplicates_map\<close> is
  absent until \<open>translate_text\<close> stores it.  An entry of \<open>failed_batches\<close> holds \<open>str(e)\<close>,
  here the exception itself.
\<close>

record 'c failed_batch =
  batch_id :: bid
  keys :: "'c list list"
  error :: "'c error"

record ('c, 'o) recovery_state =
  completed_batches :: "bid list"
  failed_batches :: "'c failed_batch list"
  translated_items :: "('c, 'o) translated"
  duplicates_map :: "('c list, 'c list) dict option"

section \<open>Response repair\<close>

text \<open>
  A parsed JSON text is a mapping or something else.  The calls into Python's \<open>json\<close>,
  \<open>re\<close> and \<open>str\<close> libraries are parameters of the model:
  \<^item> \<open>json_loads\<close> is \<open>json.loads\<close>, \<open>Inl\<close> the message of its \<open>JSONDecodeError\<close>;
  \<^item> \<open>strip_fences\<close> is the removal of code-fence markers and surrounding blanks in
    \<open>translate_batch\<close>;
  \<^item> \<open>repair_text\<close> is the text rewriting of \<open>repair_json\<close> between its two parses
    (closing an unterminated string at the position named in the error message, balancing
    braces, removing trailing commas, quoting bare property names);
  \<^item> \<open>regex_pairs\<close> is the sequence of key-value matches of \<open>re.finditer(pattern, ...)\<close>;
  \<^item> \<open>find_blocks\<close> is \<open>re.findall(r'({[^{]*?})', text)\<close>;
  \<^item> \<open>clean_text\<close> replaces the escaped newline, vertical tab and tab by the characters;
  \<^item> \<open>json_dump\<close> is the body of \<open>save_recovery_state\<close>, the write of the job state into the
    checkpoint file opened with \<open>open(recovery_file, 'w', encoding='utf-8')\<close>:
    \<open>json.dump(recovery_state, f, ensure_ascii=False, indent=2)\<close>.  It returns \<open>None\<close> when
    the state is written and the exception otherwise: \<open>UnicodeEncodeError\<close> when a string of
    the state holds a code point UTF-8 cannot encode (a lone surrogate, which \<open>json.loads\<close>
    accepts in a reply), \<open>OSError\<close> when the file cannot be opened or written.  The file
    system belongs to the environment \<open>'w\<close> the backend lives in.
\<close>

datatype ('c, 'o) parsed = PDict "('c list, ('c, 'o) jval) dict" | PNonDict

record ('c, 'o, 'w) lib =
  json_loads :: "'c list \<Rightarrow> 'c list + ('c, 'o) parsed"
  strip_fences :: "'c list \<Rightarrow> 'c list"
  repair_text :: "'c list \<Rightarrow> 'c list \<Rightarrow> 'c list"
  regex_pairs :: "'c list \<Rightarrow> ('c list \<times> ('c, 'o) jval) list"
  find_blocks :: "'c list \<Rightarrow> 'c list list"
  clean_text :: "'c list \<Rightarrow> 'c list"
  json_dump :: "('c, 'o) recovery_state \<Rightarrow> 'w \<Rightarrow> 'c error option \<times> 'w"

text \<open>
  \<open>app13.py\<close>, \<open>repair_json\<close>.  The last resort of this function is the regex salvage over
  the original content:
  \<^verbatim>\<open>
  result = {}
  for match in re.finditer(pattern, original_content):
      ... result[groups[0]] = groups[1] / result[groups[2]] = int(groups[3])
  if result:
      return result
  raise e
  \<close>
\<close>

definition regex_salvage :: "('c, 'o, 'w) lib \<Rightarrow> 'c list \<Rightarrow> ('c list, ('c, 'o) jval) dict" where
  "regex_salvage L original_content = dict_of (regex_pairs L original_content)"

definition repair_json :: "('c, 'o, 'w) lib \<Rightarrow> 'c list \<Rightarrow> 'c error + ('c, 'o) parsed" where
  "repair_json L json_content =
     (case json_loads L json_content of
        Inr p \<Rightarrow> Inr p
      | Inl e \<Rightarrow>
          (case json_loads L (repair_text L e json_content) of
             Inr p \<Rightarrow> Inr p
           | Inl e2 \<Rightarrow>
               (let result = regex_salvage L json_content
                in if result \<noteq> [] then Inr (PDict result) else Inl (JSONDecodeError e))))"

text \<open>
  \<open>app13.py\<close>, \<open>extract_json_blocks\<close>: every block that parses is kept, the kept blocks are
  merged with \<open>combined.update(block)\<close> (which raises on a value that is no mapping), and
  \<open>None\<close> is returned when no block parses.
\<close>

fun combine_blocks ::
  "('c, 'o) parsed list \<Rightarrow> ('c list, ('c, 'o) jval) dict \<Rightarrow>
   'c error + ('c list, ('c, 'o) jval) dict" where
  "combine_blocks [] combined = Inr combined"
| "combine_blocks (PDict block # rest) combined = combine_blocks rest (dict_update combined block)"
| "combine_blocks (PNonDict # rest) combined = Inl TypeError"

definition valid_blocks :: "('c, 'o, 'w) lib \<Rightarrow> 'c list \<Rightarrow> ('c, 'o) parsed list" where
  "valid_blocks L text =
     concat (map (\<lambda>block. case json_loads L block of Inr p \<Rightarrow> [p] | Inl e \<Rightarrow> [])
                 (find_blocks L text))"

definition extract_json_blocks ::
  "('c, 'o, 'w) lib \<Rightarrow> 'c list \<Rightarrow> 'c error + ('c list, ('c, 'o) jval) dict option" where
  "extract_json_blocks L text =
     (if valid_blocks L text \<noteq> []
      then (case combine_blocks (valid_blocks L text) [] of
              Inl e \<Rightarrow> Inl e
            | Inr combined \<Rightarrow> Inr (Some combined))
      else Inr None)"

text \<open>
  The parse cascade of \<open>translate_batch\<close> (and, inlined again, of the final sweep):
  \<^verbatim>\<open>
  try:
      batch_result = json.loads(json_content)
  except json.JSONDecodeError as e:
      try:
          batch_result = repair_json(json_content)
      except Exception as e2:
          extracted_result = extract_json_blocks(json_content)
          if extracted_result:
              batch_result = extracted_result
          else:
              if retry < max_retries: ...; continue
              else: raise e
  \<close>
  \<open>Inl\<close> is the exception that ends the attempt.
\<close>

definition parse_response :: "('c, 'o, 'w) lib \<Rightarrow> 'c list \<Rightarrow> 'c error + ('c, 'o) parsed" where
  "parse_response L json_content =
     (case json_loads L json_content of
        Inr p \<Rightarrow> Inr p
      | Inl e \<Rightarrow>
          (case repair_json L json_content of
             Inr p \<Rightarrow> Inr p
           | Inl e2 \<Rightarrow>
               (case extract_json_blocks L json_content of
                  Inl e3 \<Rightarrow> Inl e3
                | Inr None \<Rightarrow> Inl (JSONDecodeError e)
                | Inr (Some extracted_result) \<Rightarrow>
                    if extracted_result \<noteq> [] then Inr (PDict extracted_result)
                    else Inl (JSONDecodeError e))))"

section \<open>Checkpoint store\<close>

text \<open>
  \<open>app13.py\<close>, \<open>save_recovery_state\<close>:
  \<^verbatim>\<open>
  with open(recovery_file, 'w', encoding='utf-8') as f:
      json.dump(recovery_state, f, ensure_ascii=False, indent=2)
  \<close>
  \<open>open(..., 'w')\<close> truncates the checkpoint file itself and \<open>json.dump\<close> writes the
  serialisation into it chunk by chunk.  \<open>save_file_contents chunks previous\<close> lists the
  successive contents of the file: before the call, after \<open>open\<close>, after each write.  A crash
  leaves the file with one of them.
\<close>

fun write_all :: "'c list \<Rightarrow> 'c list list \<Rightarrow> 'c list list" where
  "write_all content [] = []"
| "write_all content (chunk # chunks) = (content @ chunk) # write_all (content @ chunk) chunks"

definition save_file_contents :: "'c list list \<Rightarrow> 'c list \<Rightarrow> 'c list list" where
  "save_file_contents chunks previous = previous # [] # write_all [] chunks"

section \<open>Translation orchestrator\<close>

text \<open>
  The translation backend is outside the program: \<open>client.messages.create(...)\<close> either
  raises (\<open>Inl\<close>, with the message) or returns the text of the reply (\<open>Inr\<close>).  It may answer
  the same request differently from one call to the next, so it reads and updates a state
  \<open>'w\<close> of its own.  The request is the prompt of \<open>translate_batch\<close> with its batch label and
  payload, or the prompt of the final sweep with the missing entries.
\<close>

datatype ('k, 'v) request = BatchRequest bid "('k, 'v) dict" | FinalRequest "('k, 'v) dict"

type_synonym ('c, 'w) backend =
  "('c list, 'c list) request \<Rightarrow> 'w \<Rightarrow> ('c list + 'c list) \<times> 'w"

text \<open>
  \<^verbatim>\<open>
  for key, value in batch_result.items():
      if isinstance(value, str):
          batch_result[key] = clean_text(value)
  \<close>
\<close>

definition clean_values :: "('c, 'o, 'w) lib \<Rightarrow> ('c, 'o) translated \<Rightarrow> ('c, 'o) translated" where
  "clean_values L batch_result =
     map (\<lambda>kv. (fst kv, case snd kv of JStr s \<Rightarrow> JStr (clean_text L s) | JOther x \<Rightarrow> JOther x))
         batch_result"

text \<open>
  One iteration of the retry loop of \<open>translate_batch\<close>: the call, the parse cascade, the
  cleaning.  \<open>batch_result.items()\<close> raises \<open>AttributeError\<close> when the parsed value is no
  mapping.  \<open>Inl\<close> is the exception that reaches \<open>except Exception as e\<close>.
\<close>

definition attempt ::
  "('c, 'o, 'w) lib \<Rightarrow> ('c, 'w) backend \<Rightarrow> ('c list, 'c list) request \<Rightarrow> 'w \<Rightarrow>
   ('c error + ('c, 'o) translated) \<times> 'w" where
  "attempt L be req w =
     (case be req w of
        (Inl msg, w') \<Rightarrow> (Inl (APIError msg), w')
      | (Inr translated_text, w') \<Rightarrow>
          (case parse_response L (strip_fences L translated_text) of
             Inl e \<Rightarrow> (Inl e, w')
           | Inr PNonDict \<Rightarrow> (Inl AttributeError, w')
           | Inr (PDict batch_result) \<Rightarrow> (Inr (clean_values L batch_result), w')))"

text \<open>
  \<open>translate_batch\<close>: \<open>for retry in range(max_retries + 1)\<close>.  The fourth argument is the
  number of retries left, \<open>max_retries - retry\<close>; with none left the exception is raised
  (\<open>raise e\<close>), otherwise the loop sleeps and goes on.
\<close>

fun translate_batch ::
  "('c, 'o, 'w) lib \<Rightarrow> ('c, 'w) backend \<Rightarrow> ('c list, 'c list) request \<Rightarrow> nat \<Rightarrow> 'w \<Rightarrow>
   ('c error + ('c, 'o) translated) \<times> 'w" where
  "translate_batch L be req 0 w = attempt L be req w"
| "translate_batch L be req (Suc retries_left) w =
     (case attempt L be req w of
        (Inr batch_result, w') \<Rightarrow> (Inr batch_result, w')
      | (Inl e, w') \<Rightarrow> translate_batch L be req retries_left w')"

text \<open>
  What \<open>translate_text\<close> mutates while it runs: the recovery state, its local
  \<open>unique_translated_dict\<close>, the checkpoint file (every state written to it in full, oldest
  first) and the environment.
\<close>

record ('c, 'o, 'w) run =
  state :: "('c, 'o) recovery_state"
  unique_translated_dict :: "('c, 'o) translated"
  checkpoints :: "('c, 'o) recovery_state list"
  world :: 'w

text \<open>
  \<open>save_recovery_state()\<close>, the closure over \<open>recovery_state\<close> and \<open>recovery_file\<close>:
  \<^verbatim>\<open>
  def save_recovery_state():
      recovery_state["last_updated"] = datetime.now().strftime("%Y%m%d_%H%M%S")
      with open(recovery_file, 'w', encoding='utf-8') as f:
          json.dump(recovery_state, f, ensure_ascii=False, indent=2)
  \<close>
  The call returns, and the file holds the state, or it raises, and the file holds no
  complete state (section Checkpoint store); the first component of the result is the
  exception raised, if any.  The mutations made to the state before the call stay in both
  cases.
\<close>

definition save_recovery_state ::
  "('c, 'o, 'w) lib \<Rightarrow> ('c, 'o, 'w) run \<Rightarrow> 'c error option \<times> ('c, 'o, 'w) run" where
  "save_recovery_state L r =
     (case json_dump L (state r) (world r) of
        (None, w') \<Rightarrow> (None, r\<lparr>checkpoints := checkpoints r @ [state r], world := w'\<rparr>)
      | (Some e, w') \<Rightarrow> (Some e, r\<lparr>world := w'\<rparr>))"

text \<open>
  The \<open>try\<close> around \<open>translate_batch\<close> in the batch loop:
  \<^verbatim>\<open>
  try:
      batch_result = translate_batch(batch, batch_index+1, ...)
      unique_translated_dict.update(batch_result)
      recovery_state["translated_items"].update(batch_result)
      recovery_state["completed_batches"].append(batch_id)
      save_recovery_state()
  except Exception as e:
      recovery_state["failed_batches"].append(
          {"batch_id": batch_id, "keys": list(batch.keys()), "error": str(e)})
      save_recovery_state()
      print("Continuing with next batch...")
  \<close>
  \<open>add_result\<close> is the three updates after a successful call.  \<open>record_failure\<close> is the
  handler: an exception of its \<open>save_recovery_state()\<close> is caught by nothing and leaves
  \<open>translate_text\<close> (\<open>Inl\<close>).  The handler also catches an exception of the
  \<open>save_recovery_state()\<close> of the \<open>try\<close> block, after the three updates.
\<close>

definition add_result ::
  "bid \<Rightarrow> ('c, 'o) translated \<Rightarrow> ('c, 'o, 'w) run \<Rightarrow> ('c, 'o, 'w) run" where
  "add_result b batch_result r =
     r\<lparr>unique_translated_dict := dict_update (unique_translated_dict r) batch_result,
       state := (state r)
         \<lparr>translated_items := dict_update (translated_items (state r)) batch_result,
          completed_batches := completed_batches (state r) @ [b]\<rparr>\<rparr>"

definition record_failure ::
  "('c, 'o, 'w) lib \<Rightarrow> bid \<Rightarrow> 'c list list \<Rightarrow> 'c error \<Rightarrow> ('c, 'o, 'w) run \<Rightarrow>
   'c error + ('c, 'o, 'w) run" where
  "record_failure L b ks e r =
     (case save_recovery_state L
             (r\<lparr>state := (state r)
                  \<lparr>failed_batches := failed_batches (state r) @
                     [\<lparr>batch_id = b, keys = ks, error = e\<rparr>]\<rparr>\<rparr>) of
        (None, r') \<Rightarrow> Inr r'
      | (Some e', r') \<Rightarrow> Inl e')"

text \<open>The body of \<open>for batch_index, batch in enumerate(batches)\<close>; \<open>max_retries\<close> is 2.\<close>

definition translating_step ::
  "('c, 'o, 'w) lib \<Rightarrow> ('c, 'w) backend \<Rightarrow> nat \<Rightarrow> ('c list, 'c list) dict \<Rightarrow>
   ('c, 'o, 'w) run \<Rightarrow> 'c error + ('c, 'o, 'w) run" where
  "translating_step L be batch_index batch r =
     (if Batch (batch_index + 1) \<in> set (completed_batches (state r)) then Inr r
      else (case translate_batch L be (BatchRequest (Batch (batch_index + 1)) batch) 2 (world r) of
              (Inr batch_result, w') \<Rightarrow>
                (case save_recovery_state L
                        (add_result (Batch (batch_index + 1)) batch_result (r\<lparr>world := w'\<rparr>)) of
                   (None, r') \<Rightarrow> Inr r'
                 | (Some e, r') \<Rightarrow> record_failure L (Batch (batch_index + 1)) (map fst batch) e r')
            | (Inl e, w') \<Rightarrow>
                record_failure L (Batch (batch_index + 1)) (map fst batch) e (r\<lparr>world := w'\<rparr>)))"

fun translating_loop ::
  "('c, 'o, 'w) lib \<Rightarrow> ('c, 'w) backend \<Rightarrow> nat \<Rightarrow> ('c list, 'c list) dict list \<Rightarrow>
   ('c, 'o, 'w) run \<Rightarrow> 'c error + ('c, 'o, 'w) run" where
  "translating_loop L be batch_index [] r = Inr r"
| "translating_loop L be batch_index (batch # batches) r =
     (case translating_step L be batch_index batch r of
        Inl e \<Rightarrow> Inl e
      | Inr r' \<Rightarrow> translating_loop L be (batch_index + 1) batches r')"

text \<open>
  Failure reconciliation in \<open>translate_text\<close>:
  \<^verbatim>\<open>
  for failed_batch in list(recovery_state["failed_batches"]):
      batch_id = failed_batch["batch_id"]
      keys = failed_batch["keys"]
      retry_batch = {k: text_dict[k] for k in keys if k in text_dict}
      chunk_size = max(5, len(retry_batch) // 4)
      retry_items = list(retry_batch.items())
      sub_batches = [dict(retry_items[i:i+chunk_size])
                     for i in range(0, len(retry_items), chunk_size)]
      for i, sub_batch in enumerate(sub_batches):
          sub_id = f"{batch_id}_sub_{i+1}"
          try:
              sub_result = translate_batch(sub_batch, f"{batch_id}.{i+1}", ..., max_retries=3)
              unique_translated_dict.update(sub_result)
              recovery_state["translated_items"].update(sub_result)
              recovery_state["completed_batches"].append(sub_id)
              save_recovery_state()
          except Exception as e:
              continue
      recovery_state["failed_batches"].remove(failed_batch)
      save_recovery_state()
  \<close>
  The handler of a sub-batch swallows every exception, the one of \<open>save_recovery_state()\<close>
  included; the \<open>save_recovery_state()\<close> after \<open>remove\<close> is outside every \<open>try\<close>.
\<close>

function chunks :: "nat \<Rightarrow> 'a list \<Rightarrow> 'a list list" where
  "chunks n xs = (if n = 0 \<or> xs = [] then [] else take n xs # chunks n (drop n xs))"
  by pat_completeness auto
termination
  by (relation "measure (\<lambda>(n, xs). length xs)") auto

declare chunks.simps [simp del]

definition retry_sub_batch ::
  "('c, 'o, 'w) lib \<Rightarrow> ('c, 'w) backend \<Rightarrow> bid \<Rightarrow> nat \<Rightarrow> ('c list, 'c list) dict \<Rightarrow>
   ('c, 'o, 'w) run \<Rightarrow> ('c, 'o, 'w) run" where
  "retry_sub_batch L be b i sub_batch r =
     (case translate_batch L be (BatchRequest (Sub b (i + 1)) sub_batch) 3 (world r) of
        (Inr sub_result, w') \<Rightarrow>
          snd (save_recovery_state L (add_result (Sub b (i + 1)) sub_result (r\<lparr>world := w'\<rparr>)))
      | (Inl e, w') \<Rightarrow> r\<lparr>world := w'\<rparr>)"

fun sub_batch_loop ::
  "('c, 'o, 'w) lib \<Rightarrow> ('c, 'w) backend \<Rightarrow> bid \<Rightarrow> nat \<Rightarrow> ('c list, 'c list) dict list \<Rightarrow>
   ('c, 'o, 'w) run \<Rightarrow> ('c, 'o, 'w) run" where
  "sub_batch_loop L be b i [] r = r"
| "sub_batch_loop L be b i (sub_batch # sub_batches) r =
     sub_batch_loop L be b (i + 1) sub_batches (retry_sub_batch L be b i sub_batch r)"

definition retry_batch_of :: "('c list, 'c list) dict \<Rightarrow> 'c list list \<Rightarrow> ('c list, 'c list) dict" where
  "retry_batch_of text_dict ks =
     dict_of (concat (map (\<lambda>k. case map_of text_dict k of Some v \<Rightarrow> [(k, v)] | None \<Rightarrow> []) ks))"

definition sub_batches_of :: "('c list, 'c list) dict \<Rightarrow> ('c list, 'c list) dict list" where
  "sub_batches_of retry_batch =
     map dict_of (chunks (max 5 (length retry_batch div 4)) retry_batch)"

definition retry_failed_batch ::
  "('c, 'o, 'w) lib \<Rightarrow> ('c, 'w) backend \<Rightarrow> ('c list, 'c list) dict \<Rightarrow> 'c failed_batch \<Rightarrow>
   ('c, 'o, 'w) run \<Rightarrow> 'c error + ('c, 'o, 'w) run" where
  "retry_failed_batch L be text_dict failed_batch r =
     (let r1 = sub_batch_loop L be (batch_id failed_batch) 0
                 (sub_batches_of (retry_batch_of text_dict (keys failed_batch))) r
      in case save_recovery_state L
                (r1\<lparr>state := (state r1)
                   \<lparr>failed_batches := remove1 failed_batch (failed_batches (state r1))\<rparr>\<rparr>) of
           (None, r') \<Rightarrow> Inr r'
         | (Some e, r') \<Rightarrow> Inl e)"

text \<open>The loop over the snapshot \<open>list(recovery_state["failed_batches"])\<close>.\<close>

fun retry_loop ::
  "('c, 'o, 'w) lib \<Rightarrow> ('c, 'w) backend \<Rightarrow> ('c list, 'c list) dict \<Rightarrow> 'c failed_batch list \<Rightarrow>
   ('c, 'o, 'w) run \<Rightarrow> 'c error + ('c, 'o, 'w) run" where
  "retry_loop L be text_dict [] r = Inr r"
| "retry_loop L be text_dict (failed_batch # rest) r =
     (case retry_failed_batch L be text_dict failed_batch r of
        Inl e \<Rightarrow> Inl e
      | Inr r' \<Rightarrow> retry_loop L be text_dict rest r')"

definition reconcile_failures ::
  "('c, 'o, 'w) lib \<Rightarrow> ('c, 'w) backend \<Rightarrow> ('c list, 'c list) dict \<Rightarrow>
   ('c, 'o, 'w) run \<Rightarrow> 'c error + ('c, 'o, 'w) run" where
  "reconcile_failures L be text_dict r =
     retry_loop L be text_dict (failed_batches (state r)) r"

text \<open>
  Re-expansion of the duplicates:
  \<^verbatim>\<open>
  full_translated_dict = {}
  for key, value in unique_translated_dict.items():
      full_translated_dict[key] = value
  for original_key, rep_key in duplicates_map.items():
      if rep_key in unique_translated_dict and original_key != rep_key:
          full_translated_dict[original_key] = unique_translated_dict[rep_key]
  \<close>
\<close>

definition expand_duplicates ::
  "('c, 'o) translated \<Rightarrow> ('c list, 'c list) dict \<Rightarrow> ('c, 'o) translated" where
  "expand_duplicates unique_translated duplicates =
     fold (\<lambda>p full.
             case map_of unique_translated (snd p) of
               Some t \<Rightarrow> if fst p \<noteq> snd p then AList.update (fst p) t full else full
             | None \<Rightarrow> full)
          duplicates (dict_of unique_translated)"

text \<open>
  The final sweep: one call for the keys of \<open>text_dict\<close> missing from
  \<open>full_translated_dict\<close>, without retry, the whole of it inside \<open>try ... except Exception\<close>,
  which also swallows an exception of \<open>save_recovery_state()\<close>, after the two updates.
  \<open>missing_keys\<close> is a Python set, whose iteration order is not fixed; the model lists the
  missing entries in the order of \<open>text_dict\<close>.
  \<^verbatim>\<open>
  full_translated_dict.update(final_batch)
  recovery_state["translated_items"].update(final_batch)
  save_recovery_state()
  \<close>
\<close>

definition final_sweep ::
  "('c, 'o, 'w) lib \<Rightarrow> ('c, 'w) backend \<Rightarrow> ('c list, 'c list) dict \<Rightarrow> ('c, 'o) translated \<Rightarrow>
   ('c, 'o, 'w) run \<Rightarrow> ('c, 'o) translated \<times> ('c, 'o, 'w) run" where
  "final_sweep L be text_dict full_translated_dict r =
     (let missing_dict = filter (\<lambda>kv. \<not> has_key full_translated_dict (fst kv)) text_dict
      in if missing_dict = [] then (full_translated_dict, r)
         else (case attempt L be (FinalRequest missing_dict) (world r) of
                 (Inr final_batch, w') \<Rightarrow>
                   (dict_update full_translated_dict final_batch,
                    snd (save_recovery_state L
                      (r\<lparr>state := (state r)
                           \<lparr>translated_items := dict_update (translated_items (state r)) final_batch\<rparr>,
                         world := w'\<rparr>)))
               | (Inl e, w') \<Rightarrow> (full_translated_dict, r\<lparr>world := w'\<rparr>)))"

text \<open>
  \<open>setup_recovery_system\<close>: the state is loaded from the resume file, or created and written
  to a new file.  \<open>setup_recovery_system\<close> is what the function returns, \<open>create_recovery_file\<close>
  the write of the new state it makes before it returns,
  \<^verbatim>\<open>
  with open(recovery_file, 'w', encoding='utf-8') as f:
      json.dump(recovery_state, f, ensure_ascii=False, indent=2)
  \<close>
  whose exception leaves \<open>translate_text\<close>.
\<close>

definition setup_recovery_system ::
  "('c, 'o) recovery_state option \<Rightarrow> 'w \<Rightarrow> ('c, 'o, 'w) run" where
  "setup_recovery_system resume_file w =
     (let recovery_state =
            (case resume_file of
               Some loaded \<Rightarrow> loaded
             | None \<Rightarrow> \<lparr>completed_batches = [], failed_batches = [], translated_items = [],
                        duplicates_map = None\<rparr>)
      in \<lparr>state = recovery_state, unique_translated_dict = [], checkpoints = [recovery_state],
          world = w\<rparr>)"

definition create_recovery_file ::
  "('c, 'o, 'w) lib \<Rightarrow> ('c, 'o) recovery_state option \<Rightarrow> 'w \<Rightarrow> 'c error option \<times> 'w" where
  "create_recovery_file L resume_file w =
     (case resume_file of
        Some loaded \<Rightarrow> (None, w)
      | None \<Rightarrow> json_dump L (state (setup_recovery_system None w)) w)"

text \<open>
  The start of \<open>translate_text\<close>:
  \<^verbatim>\<open>
  if not recovery_state["translated_items"]:
      unique_text_dict, duplicates_map = deduplicate_content(text_dict)
      recovery_state["duplicates_map"] = duplicates_map
      save_recovery_state()
  else:
      unique_text_dict = {k: text_dict[k] for k in text_dict.keys()
                        if k not in [rep_key for rep_key in recovery_state["duplicates_map"].values()]}
      duplicates_map = recovery_state["duplicates_map"]
  \<close>
  A state without \<open>duplicates_map\<close> raises \<open>KeyError\<close> in the second branch; an exception of
  \<open>save_recovery_state()\<close> in the first leaves \<open>translate_text\<close>.
\<close>

definition prepare ::
  "('c, 'o, 'w) lib \<Rightarrow> ('c list, 'c list) dict \<Rightarrow> ('c, 'o, 'w) run \<Rightarrow>
   'c error + (('c list, 'c list) dict \<times> ('c list, 'c list) dict \<times> ('c, 'o, 'w) run)" where
  "prepare L text_dict r =
     (if translated_items (state r) = []
      then (case deduplicate_content text_dict of
              Inl e \<Rightarrow> Inl e
            | Inr ud \<Rightarrow>
                (case save_recovery_state L
                        (r\<lparr>state := (state r)\<lparr>duplicates_map := Some (snd ud)\<rparr>\<rparr>) of
                   (None, r') \<Rightarrow> Inr (fst ud, snd ud, r')
                 | (Some e, r') \<Rightarrow> Inl e))
      else (case duplicates_map (state r) of
              None \<Rightarrow> Inl KeyError
            | Some duplicates \<Rightarrow>
                Inr (filter (\<lambda>kv. fst kv \<notin> set (map snd duplicates)) text_dict, duplicates, r)))"

text \<open>
  \<open>translate_text(text_dict, ..., resume_file)\<close>, returning \<open>full_translated_dict\<close> together
  with the final run state; \<open>Inl\<close> is an exception that leaves the function.
  \<^verbatim>\<open>
  remaining_dict = {k: v for k, v in unique_text_dict.items()
                   if k not in recovery_state["translated_items"]}
  if not remaining_dict:
      full_translated_dict = recovery_state["translated_items"].copy()
  else:
      batches = split_dict_into_smart_batches(remaining_dict, max_input_tokens=150000, prompt_tokens=2000)
      unique_translated_dict = recovery_state["translated_items"].copy()
      ... batch loop, failure reconciliation, re-expansion ...
  ... final sweep ...
  return full_translated_dict
  \<close>
\<close>

definition translate_text ::
  "('c, 'o, 'w) lib \<Rightarrow> ('c, 'w) backend \<Rightarrow> ('c list, 'c list) dict \<Rightarrow>
   ('c, 'o) recovery_state option \<Rightarrow> 'w \<Rightarrow>
   'c error + (('c, 'o) translated \<times> ('c, 'o, 'w) run)" where
  "translate_text L be text_dict resume_file w =
     (case create_recovery_file L resume_file w of
        (Some e, w0) \<Rightarrow> Inl e
      | (None, w0) \<Rightarrow>
     (case prepare L text_dict (setup_recovery_system resume_file w0) of
        Inl e \<Rightarrow> Inl e
      | Inr (unique_text_dict, duplicates, r1) \<Rightarrow>
          (let remaining_dict =
                 filter (\<lambda>kv. \<not> has_key (translated_items (state r1)) (fst kv)) unique_text_dict
           in if remaining_dict = []
              then Inr (final_sweep L be text_dict (translated_items (state r1)) r1)
              else (case split_dict_into_smart_batches remaining_dict 150000 2000 of
                      Inl e \<Rightarrow> Inl e
                    | Inr batches \<Rightarrow>
                        (case translating_loop L be 0 batches
                                (r1\<lparr>unique_translated_dict := translated_items (state r1)\<rparr>) of
                           Inl e \<Rightarrow> Inl e
                         | Inr r2 \<Rightarrow>
                             (case reconcile_failures L be text_dict r2 of
                                Inl e \<Rightarrow> Inl e
                              | Inr r3 \<Rightarrow>
                                  Inr (final_sweep L be text_dict
                                         (expand_duplicates (unique_translated_dict r3) duplicates)
                                         r3)))))))"

section \<open>Auxiliary notions of the proofs\<close>

text \<open>
  The cost of a batch as the partitioner counts it, the sum of the estimates of its texts
  alone, and the budget condition of a batch.  The ids with a given text, what the first
  loop of the deduplicator has built after a prefix of the input, and the two loops of
  \<^const>\<open>assign_reps\<close> as folds.
\<close>

definition batch_cost :: "('c list, 'c list) dict \<Rightarrow> int" where
  "batch_cost b = sum_list (map item_tokens b)"

definition within_budget :: "int \<Rightarrow> int \<Rightarrow> ('c list, 'c list) dict \<Rightarrow> bool" where
  "within_budget mx pt b =
     (pt + batch_cost b \<le> mx \<or> (length b = 1 \<and> pt + batch_cost b > mx))"

definition ids_with_text :: "('k, 'v) dict \<Rightarrow> 'v \<Rightarrow> 'k list" where
  "ids_with_text fragments v = map fst (filter (\<lambda>kv. snd kv = v) fragments)"

definition grouped :: "('k, 'v) dict \<Rightarrow> ('v, 'k list) dict \<Rightarrow> bool" where
  "grouped seen c2k \<longleftrightarrow>
     distinct (map fst c2k) \<and>
     fst ` set c2k = snd ` set seen \<and>
     (\<forall>g \<in> set c2k. snd g = ids_with_text seen (fst g))"

definition unique_of :: "('v, 'k list) dict \<Rightarrow> ('k, 'v) dict \<Rightarrow> ('k, 'v) dict" where
  "unique_of groups u = fold (\<lambda>g acc. AList.update (hd (snd g)) (fst g) acc) groups u"

definition dups_of :: "('v, 'k list) dict \<Rightarrow> ('k, 'k) dict \<Rightarrow> ('k, 'k) dict" where
  "dups_of groups d =
     fold (\<lambda>g acc. fold (\<lambda>key m. AList.update key (hd (snd g)) m) (snd g) acc) groups d"

definition apart :: "('v, 'k list) dict \<Rightarrow> bool" where
  "apart groups \<longleftrightarrow>
     distinct groups \<and>
     (\<forall>g \<in> set groups. \<forall>h \<in> set groups. set (snd g) \<inter> set (snd h) \<noteq> {} \<longrightarrow> g = h)"

definition text_cost :: "('c list, 'c list) dict \<Rightarrow> int" where
  "text_cost b = sum_list (map (\<lambda>kv. estimate_tokens (Some (snd kv))) b)"

text \<open>
  The spec's words for the checkpoint store: a save is crash-safe when the file holds the
  previous checkpoint or the new one at every moment of the save.
\<close>

definition crash_safe :: "'c list list \<Rightarrow> 'c list \<Rightarrow> bool" where
  "crash_safe pieces previous =
     list_all (\<lambda>content. content = previous \<or> content = concat pieces)
              (save_file_contents pieces previous)"

section \<open>Concrete responses and backends\<close>

text \<open>
  The texts of the worked examples.  \<open>raw_ex\<close> is a reply whose JSON object is followed by
  stray text and whose value holds escaped quotes; \<open>raw_comma\<close> has a trailing comma;
  \<open>raw_num\<close> holds a negative number and stray text.  \<open>lib_ex\<close> gives, for these texts and
  the texts derived from them, what Python's \<open>json.loads\<close>, the rewriting of
  \<open>repair_json\<close> and the two regular expressions return on them; its writes of the
  checkpoint file succeed.
\<close>

definition block_ex :: string where
  \<open>block_ex = ''{"a": "say '' @ [CHR 0x5C] @ ''"hi'' @ [CHR 0x5C] @ ''""}''\<close>

definition raw_ex :: string where
  "raw_ex = block_ex @ '' x''"

definition raw_comma :: string where
  \<open>raw_comma = ''{"a": "x",}''\<close>

definition fixed_comma :: string where
  \<open>fixed_comma = ''{"a": "x"}''\<close>

definition block_num :: string where
  \<open>block_num = ''{"a": -1}''\<close>

definition raw_num :: string where
  "raw_num = block_num @ '' y''"

definition lib_ex :: "(char, int, unit) lib" where
  \<open>lib_ex =
     \<lparr>json_loads = (\<lambda>s.
          if s = block_ex then Inr (PDict [(''a'', JStr ''say "hi"'')])
          else if s = fixed_comma then Inr (PDict [(''a'', JStr ''x'')])
          else if s = block_num then Inr (PDict [(''a'', JOther (- 1))])
          else if s = raw_ex then Inl ''Extra data: line 1 column 21 (char 20)''
          else if s = raw_num then Inl ''Extra data: line 1 column 11 (char 10)''
          else if s = raw_comma
            then Inl ''Expecting property name enclosed in double quotes: line 1 column 11 (char 10)''
          else Inl ''Expecting value: line 1 column 1 (char 0)''),
      strip_fences = (\<lambda>s. s),
      repair_text = (\<lambda>e s. if s = raw_comma then fixed_comma else s),
      regex_pairs = (\<lambda>s.
          if s = raw_ex then [(''a'', JStr (''say '' @ [CHR 0x5C]))]
          else if s = raw_comma then [(''a'', JStr ''x'')]
          else []),
      find_blocks = (\<lambda>s.
          if s = raw_ex then [block_ex]
          else if s = raw_num then [block_num]
          else if s = raw_comma then [raw_comma]
          else []),
      clean_text = (\<lambda>s. s),
      json_dump = (\<lambda>s w. (None, w))\<rparr>\<close>

text \<open>
  For the orchestrator: the ids a state has translations for; checkpoints whose id sets only
  grow; a run whose checkpoints grow and stay below its current state; a run whose local
  \<open>unique_translated_dict\<close> covers its state; one run extending another.
\<close>

definition tkeys :: "('c, 'o) recovery_state \<Rightarrow> 'c list set" where
  "tkeys s = fst ` set (translated_items s)"



definition in_step :: "('c, 'o, 'w) run \<Rightarrow> bool" where
  "in_step r \<longleftrightarrow> tkeys (state r) \<subseteq> fst ` set (unique_translated_dict r)"

definition grows :: "('c, 'o, 'w) run \<Rightarrow> ('c, 'o, 'w) run \<Rightarrow> bool" where
  "grows r r' \<longleftrightarrow>
     prefix (checkpoints r) (checkpoints r') \<and>
     fst ` set (unique_translated_dict r) \<subseteq> fst ` set (unique_translated_dict r')"

text \<open>
  A backend that answers a request for one fragment with a JSON object translating it to
  \<open>ok\<close> and refuses a request for several (\<open>be_ex\<close>), one that is down (\<open>be_down\<close>), and
  one that answers every request with the translation of \<open>a\<close> alone (\<open>be_omit\<close>); none keeps a
  state.  \<open>lib_ok\<close> parses their replies as \<open>json.loads\<close> does and writes every
  checkpoint.  \<open>text3_ex\<close> is a document of
  three fragments of 600000 characters, each costing more than a batch may hold, and
  \<open>checkpoint_ex\<close> is the checkpoint its job writes after the first batch.
\<close>

definition reply :: "string \<Rightarrow> string" where
  \<open>reply k = ''{"'' @ k @ ''": "ok"}''\<close>

definition lib_ok :: "(char, int, unit) lib" where
  "lib_ok =
     \<lparr>json_loads = (\<lambda>s.
          if s = reply ''a'' then Inr (PDict [(''a'', JStr ''ok'')])
          else if s = reply ''b'' then Inr (PDict [(''b'', JStr ''ok'')])
          else if s = reply ''c'' then Inr (PDict [(''c'', JStr ''ok'')])
          else Inl ''Expecting value: line 1 column 1 (char 0)''),
      strip_fences = (\<lambda>s. s),
      repair_text = (\<lambda>e s. s),
      regex_pairs = (\<lambda>s. []),
      find_blocks = (\<lambda>s. []),
      clean_text = (\<lambda>s. s),
      json_dump = (\<lambda>s w. (None, w))\<rparr>"

definition answer :: "(string, string) dict \<Rightarrow> string + string" where
  "answer batch = (case batch of [kv] \<Rightarrow> Inr (reply (fst kv)) | _ \<Rightarrow> Inl ''request too large'')"

definition be_ex :: "(char, unit) backend" where
  "be_ex req w = (case req of BatchRequest b batch \<Rightarrow> (answer batch, w)
                            | FinalRequest batch \<Rightarrow> (answer batch, w))"

definition be_down :: "(char, unit) backend" where
  "be_down req w = (Inl ''overloaded'', w)"


definition big :: "char \<Rightarrow> string" where
  "big c = replicate 600000 c"

definition text3_ex :: "(string, string) dict" where
  "text3_ex = [(''a'', big (CHR ''x'')), (''b'', big (CHR ''y'')), (''c'', big (CHR ''z''))]"

definition checkpoint_ex :: "(char, int) recovery_state" where
  "checkpoint_ex =
     \<lparr>completed_batches = [Batch 1], failed_batches = [],
      translated_items = [(''a'', JStr ''ok'')],
      duplicates_map = Some [(''a'', ''a''), (''b'', ''b''), (''c'', ''c'')]\<rparr>"











section \<open>Properties\<close>

lemma update_fresh: "k \<notin> fst ` set al \<Longrightarrow> AList.update k v al = al @ [(k, v)]"
  by (induction al) auto



lemma batch_loop_budget:
  "distinct (map fst (cur @ items)) \<Longrightarrow>
   list_all (within_budget mx pt) bs \<Longrightarrow>
   cur = [] \<or> within_budget mx pt cur \<Longrightarrow>
   cnt = pt + batch_cost cur \<Longrightarrow>
   list_all (within_budget mx pt) (batch_loop mx pt items bs cur cnt)"
proof (induction items arbitrary: bs cur cnt)
  case Nil
  then show ?case by auto
next
  case (Cons kv items)
  have fresh: "fst kv \<notin> fst ` set cur" using Cons.prems(1) by auto
  have upd: "AList.update (fst kv) (snd kv) cur = cur @ [kv]"
    using update_fresh[OF fresh] by simp
  have d1: "distinct (map fst ((cur @ [kv]) @ items))" using Cons.prems(1) by simp
  have d2: "distinct (map fst ([kv] @ items))" using Cons.prems(1) by simp
  show ?case
  proof (cases "cnt + item_tokens kv > mx \<and> cur \<noteq> []")
    case True
    have a: "list_all (within_budget mx pt) (bs @ [cur])"
      using Cons.prems(2,3) True by simp
    have b: "[kv] = [] \<or> within_budget mx pt [kv]"
      by (auto simp: within_budget_def batch_cost_def)
    have c: "pt + item_tokens kv = pt + batch_cost [kv]" by (simp add: batch_cost_def)
    show ?thesis using True Cons.IH[OF d2 a b c] by simp
  next
    case False
    have b: "cur @ [kv] = [] \<or> within_budget mx pt (cur @ [kv])"
      using False Cons.prems(3,4) by (auto simp: within_budget_def batch_cost_def)
    have c: "cnt + item_tokens kv = pt + batch_cost (cur @ [kv])"
      using Cons.prems(4) by (simp add: batch_cost_def)
    show ?thesis using False Cons.IH[OF d1 Cons.prems(2) b c] upd by auto
  qed
qed

lemma estimate_tokens_pos: "estimate_tokens (Some s) \<ge> 1"
  by (simp add: estimate_tokens_def)

lemma item_tokens_pos: "item_tokens kv \<ge> 12"
  using estimate_tokens_pos[of "fst kv"] estimate_tokens_pos[of "snd kv"]
  by (simp add: item_tokens_def)

lemma ids_with_text_append:
  "ids_with_text (xs @ ys) v = ids_with_text xs v @ ids_with_text ys v"
  by (simp add: ids_with_text_def)

lemma map_of_grouped:
  assumes "grouped seen c2k"
  shows "map_of c2k v = (if v \<in> snd ` set seen then Some (ids_with_text seen v) else None)"
proof (cases "v \<in> snd ` set seen")
  case True
  then have "v \<in> fst ` set c2k" using assms by (simp add: grouped_def)
  then obtain ks where "(v, ks) \<in> set c2k" by auto
  moreover then have "ks = ids_with_text seen v" using assms by (auto simp: grouped_def)
  ultimately show ?thesis using assms True by (simp add: grouped_def)
next
  case False
  then have "v \<notin> fst ` set c2k" using assms by (simp add: grouped_def)
  then show ?thesis using False by (simp add: map_of_eq_None_iff)
qed

lemma set_update_present:
  "distinct (map fst al) \<Longrightarrow> (k, old) \<in> set al \<Longrightarrow>
   set (AList.update k v al) = insert (k, v) (set al - {(k, old)})"
proof (induction al)
  case Nil
  then show ?case by simp
next
  case (Cons p al)
  show ?case
  proof (cases "fst p = k")
    case True
    then have "p = (k, old)" using Cons.prems by (cases p) (auto simp: rev_image_eqI)
    moreover have "(k, old) \<notin> set al" using Cons.prems True by (auto simp: rev_image_eqI)
    ultimately show ?thesis by auto
  next
    case False
    then have "(k, old) \<in> set al" using Cons.prems by auto
    then show ?thesis using Cons False by auto
  qed
qed

lemma grouped_step:
  assumes "grouped seen c2k"
  shows "grouped (seen @ [kv])
           (case map_of c2k (snd kv) of
              Some ks \<Rightarrow> AList.update (snd kv) (ks @ [fst kv]) c2k
            | None \<Rightarrow> AList.update (snd kv) [fst kv] c2k)"
proof (cases "snd kv \<in> snd ` set seen")
  case True
  let ?v = "snd kv"
  have m: "map_of c2k ?v = Some (ids_with_text seen ?v)"
    using map_of_grouped[OF assms] True by simp
  have d: "distinct (map fst c2k)" using assms by (simp add: grouped_def)
  have mem: "(?v, ids_with_text seen ?v) \<in> set c2k" using m by (rule map_of_SomeD)
  let ?c = "AList.update ?v (ids_with_text seen ?v @ [fst kv]) c2k"
  have s: "set ?c = insert (?v, ids_with_text seen ?v @ [fst kv]) (set c2k - {(?v, ids_with_text seen ?v)})"
    using set_update_present[OF d mem] .
  have 1: "distinct (map fst ?c)" using d by (rule distinct_update)
  have 2: "fst ` set ?c = snd ` set (seen @ [kv])"
    using assms True mem by (auto simp: AList.dom_update grouped_def)
  have 3: "\<forall>g \<in> set ?c. snd g = ids_with_text (seen @ [kv]) (fst g)"
  proof
    fix g assume "g \<in> set ?c"
    then consider "g = (?v, ids_with_text seen ?v @ [fst kv])"
      | "g \<in> set c2k" "g \<noteq> (?v, ids_with_text seen ?v)" using s by auto
    then show "snd g = ids_with_text (seen @ [kv]) (fst g)"
    proof cases
      case 1
      then show ?thesis by (simp add: ids_with_text_def)
    next
      case 2
      then have "snd g = ids_with_text seen (fst g)" using assms by (simp add: grouped_def)
      moreover have "fst g \<noteq> ?v"
      proof
        assume "fst g = ?v"
        then have "g = (?v, ids_with_text seen ?v)"
          using d 2(1) mem by (metis eq_key_imp_eq_value prod.collapse)
        then show False using 2(2) by simp
      qed
      ultimately show ?thesis by (auto simp: ids_with_text_def)
    qed
  qed
  show ?thesis using m 1 2 3 by (simp add: grouped_def)
next
  case False
  let ?v = "snd kv"
  have m: "map_of c2k ?v = None" using map_of_grouped[OF assms] False by simp
  have fresh: "?v \<notin> fst ` set c2k" using assms False by (simp add: grouped_def)
  have upd: "AList.update ?v [fst kv] c2k = c2k @ [(?v, [fst kv])]"
    using fresh by (induction c2k) auto
  have "\<forall>x \<in> set seen. snd x \<noteq> ?v" using False by (metis image_eqI)
  then have none: "ids_with_text seen ?v = []"
    by (simp add: ids_with_text_def filter_empty_conv)
  have 1: "distinct (map fst (c2k @ [(?v, [fst kv])]))"
    using assms fresh by (simp add: grouped_def)
  have 2: "fst ` set (c2k @ [(?v, [fst kv])]) = snd ` set (seen @ [kv])"
    using assms by (auto simp: grouped_def)
  have 3: "\<forall>g \<in> set (c2k @ [(?v, [fst kv])]). snd g = ids_with_text (seen @ [kv]) (fst g)"
  proof
    fix g assume g: "g \<in> set (c2k @ [(?v, [fst kv])])"
    show "snd g = ids_with_text (seen @ [kv]) (fst g)"
    proof (cases "g \<in> set c2k")
      case True
      then have "snd g = ids_with_text seen (fst g)" using assms by (simp add: grouped_def)
      moreover have "fst g \<noteq> ?v" using True fresh by (metis image_eqI)
      ultimately show ?thesis by (auto simp: ids_with_text_def)
    next
      case False
      then have "g = (?v, [fst kv])" using g by auto
      then show ?thesis using none by (simp add: ids_with_text_def)
    qed
  qed
  show ?thesis using m upd 1 2 3 by (simp add: grouped_def)
qed

lemma group_content_grouped:
  "grouped seen c2k \<Longrightarrow> grouped (seen @ rest) (group_content rest c2k)"
proof (induction rest arbitrary: seen c2k)
  case Nil
  then show ?case by simp
next
  case (Cons kv rest)
  from grouped_step[OF Cons.prems, of kv]
  have "grouped ((seen @ [kv]) @ rest)
          (group_content rest (case map_of c2k (snd kv) of
              Some ks \<Rightarrow> AList.update (snd kv) (ks @ [fst kv]) c2k
            | None \<Rightarrow> AList.update (snd kv) [fst kv] c2k))"
    by (rule Cons.IH)
  then show ?case by (cases "map_of c2k (snd kv)") simp_all
qed

lemma group_content_init: "grouped fragments (group_content fragments [])"
  using group_content_grouped[of "[]" "[]" fragments] by (simp add: grouped_def)

lemma assign_reps_folds:
  "\<forall>g \<in> set groups. snd g \<noteq> [] \<Longrightarrow>
   assign_reps groups u d = Inr (unique_of groups u, dups_of groups d)"
proof (induction groups arbitrary: u d)
  case Nil
  then show ?case by (simp add: unique_of_def dups_of_def)
next
  case (Cons g groups)
  then obtain r rs where r: "snd g = r # rs" by (cases "snd g") auto
  have "\<forall>g \<in> set groups. snd g \<noteq> []" using Cons.prems by simp
  from Cons.IH[OF this] show ?case using r by (simp add: unique_of_def dups_of_def)
qed

lemma map_of_fold_same:
  "map_of (fold (\<lambda>key m. AList.update key r m) ks d) k =
     (if k \<in> set ks then Some r else map_of d k)"
  by (induction ks arbitrary: d) (auto simp: AList.update_conv')

lemma keys_fold_same:
  "fst ` set (fold (\<lambda>key m. AList.update key r m) ks d) = set ks \<union> fst ` set d"
  by (induction ks arbitrary: d) (auto simp: AList.dom_update)

lemma distinct_fold_same:
  "distinct (map fst d) \<Longrightarrow> distinct (map fst (fold (\<lambda>key m. AList.update key r m) ks d))"
  by (induction ks arbitrary: d) (auto simp: AList.distinct_update)

lemma dups_of_untouched:
  "\<forall>g \<in> set groups. k \<notin> set (snd g) \<Longrightarrow> map_of (dups_of groups d) k = map_of d k"
proof (induction groups arbitrary: d)
  case Nil
  then show ?case by (simp add: dups_of_def)
next
  case (Cons g groups)
  have "map_of (dups_of groups (fold (\<lambda>key m. AList.update key (hd (snd g)) m) (snd g) d)) k
        = map_of (fold (\<lambda>key m. AList.update key (hd (snd g)) m) (snd g) d) k"
    using Cons by simp
  then show ?case using Cons.prems by (simp add: dups_of_def map_of_fold_same)
qed

lemma apart_tl: "apart (g # groups) \<Longrightarrow> apart groups"
  by (auto simp: apart_def)

lemma dups_of_member:
  "apart groups \<Longrightarrow> g \<in> set groups \<Longrightarrow> k \<in> set (snd g) \<Longrightarrow>
   map_of (dups_of groups d) k = Some (hd (snd g))"
proof (induction groups arbitrary: d)
  case Nil
  then show ?case by simp
next
  case (Cons g0 groups)
  let ?d1 = "fold (\<lambda>key m. AList.update key (hd (snd g0)) m) (snd g0) d"
  have unf: "dups_of (g0 # groups) d = dups_of groups ?d1" by (simp add: dups_of_def)
  show ?case
  proof (cases "g = g0")
    case True
    have "\<forall>h \<in> set groups. k \<notin> set (snd h)"
    proof
      fix h assume h: "h \<in> set groups"
      show "k \<notin> set (snd h)"
      proof
        assume "k \<in> set (snd h)"
        then have "set (snd g0) \<inter> set (snd h) \<noteq> {}" using Cons.prems(3) True by auto
        then have "g0 = h" using Cons.prems(1) h by (auto simp: apart_def)
        then show False using Cons.prems(1) h by (auto simp: apart_def)
      qed
    qed
    then have "map_of (dups_of groups ?d1) k = map_of ?d1 k" by (rule dups_of_untouched)
    then show ?thesis using unf True Cons.prems(3) by (simp add: map_of_fold_same)
  next
    case False
    then have "g \<in> set groups" using Cons.prems(2) by simp
    from Cons.IH[OF apart_tl[OF Cons.prems(1)] this Cons.prems(3)]
    show ?thesis using unf by simp
  qed
qed

lemma dups_of_keys:
  "fst ` set (dups_of groups d) = (\<Union>g \<in> set groups. set (snd g)) \<union> fst ` set d"
proof (induction groups arbitrary: d)
  case Nil
  then show ?case by (simp add: dups_of_def)
next
  case (Cons g groups)
  have unf: "dups_of (g # groups) d =
      dups_of groups (fold (\<lambda>key m. AList.update key (hd (snd g)) m) (snd g) d)"
    by (simp add: dups_of_def)
  show ?case unfolding unf Cons.IH by (auto simp: keys_fold_same)
qed

lemma dups_of_distinct:
  "distinct (map fst d) \<Longrightarrow> distinct (map fst (dups_of groups d))"
proof (induction groups arbitrary: d)
  case Nil
  then show ?case by (simp add: dups_of_def)
next
  case (Cons g groups)
  have unf: "dups_of (g # groups) d =
      dups_of groups (fold (\<lambda>key m. AList.update key (hd (snd g)) m) (snd g) d)"
    by (simp add: dups_of_def)
  show ?case unfolding unf using Cons by (simp add: distinct_fold_same)
qed

lemma unique_of_keys:
  "fst ` set (unique_of groups u) = (\<lambda>g. hd (snd g)) ` set groups \<union> fst ` set u"
proof (induction groups arbitrary: u)
  case Nil
  then show ?case by (simp add: unique_of_def)
next
  case (Cons g groups)
  have unf: "unique_of (g # groups) u = unique_of groups (AList.update (hd (snd g)) (fst g) u)"
    by (simp add: unique_of_def)
  show ?case unfolding unf Cons.IH by (auto simp: AList.dom_update)
qed

lemma unique_of_distinct:
  "distinct (map fst u) \<Longrightarrow> distinct (map fst (unique_of groups u))"
proof (induction groups arbitrary: u)
  case Nil
  then show ?case by (simp add: unique_of_def)
next
  case (Cons g groups)
  have unf: "unique_of (g # groups) u = unique_of groups (AList.update (hd (snd g)) (fst g) u)"
    by (simp add: unique_of_def)
  show ?case unfolding unf using Cons by (simp add: AList.distinct_update)
qed

lemma unique_of_untouched:
  "\<forall>g \<in> set groups. hd (snd g) \<noteq> r \<Longrightarrow> map_of (unique_of groups u) r = map_of u r"
proof (induction groups arbitrary: u)
  case Nil
  then show ?case by (simp add: unique_of_def)
next
  case (Cons g groups)
  have unf: "unique_of (g # groups) u = unique_of groups (AList.update (hd (snd g)) (fst g) u)"
    by (simp add: unique_of_def)
  show ?case unfolding unf using Cons by (auto simp add: AList.update_conv')
qed

lemma unique_of_member:
  "apart groups \<Longrightarrow> \<forall>g \<in> set groups. snd g \<noteq> [] \<Longrightarrow> g \<in> set groups \<Longrightarrow>
   map_of (unique_of groups u) (hd (snd g)) = Some (fst g)"
proof (induction groups arbitrary: u)
  case Nil
  then show ?case by simp
next
  case (Cons g0 groups)
  have unf: "unique_of (g0 # groups) u = unique_of groups (AList.update (hd (snd g0)) (fst g0) u)"
    by (simp add: unique_of_def)
  show ?case
  proof (cases "g = g0")
    case True
    have "\<forall>h \<in> set groups. hd (snd h) \<noteq> hd (snd g0)"
    proof
      fix h assume h: "h \<in> set groups"
      show "hd (snd h) \<noteq> hd (snd g0)"
      proof
        assume e: "hd (snd h) = hd (snd g0)"
        have "hd (snd h) \<in> set (snd h)" "hd (snd g0) \<in> set (snd g0)"
          using Cons.prems(2) h by simp_all
        then have "set (snd g0) \<inter> set (snd h) \<noteq> {}" using e by auto
        then have "g0 = h" using Cons.prems(1) h by (auto simp: apart_def)
        then show False using Cons.prems(1) h by (auto simp: apart_def)
      qed
    qed
    then have "map_of (unique_of groups (AList.update (hd (snd g0)) (fst g0) u)) (hd (snd g0))
               = map_of (AList.update (hd (snd g0)) (fst g0) u) (hd (snd g0))"
      by (rule unique_of_untouched)
    then show ?thesis using unf True by (simp add: AList.update_conv')
  next
    case False
    then have g: "g \<in> set groups" using Cons.prems(3) by simp
    have ne: "\<forall>g \<in> set groups. snd g \<noteq> []" using Cons.prems(2) by simp
    from Cons.IH[OF apart_tl[OF Cons.prems(1)] ne g] show ?thesis using unf by simp
  qed
qed

lemma find_filter_hd:
  "find P xs = (case filter P xs of [] \<Rightarrow> None | x # _ \<Rightarrow> Some x)"
  by (induction xs) auto

lemma first_id_with_text_hd:
  "v \<in> snd ` set fragments \<Longrightarrow>
   first_id_with_text fragments v = Some (hd (ids_with_text fragments v))"
proof -
  assume "v \<in> snd ` set fragments"
  then have "filter (\<lambda>kv. snd kv = v) fragments \<noteq> []"
    by (auto simp: filter_empty_conv)
  then show ?thesis
    by (cases "filter (\<lambda>kv. snd kv = v) fragments")
       (simp_all add: first_id_with_text_def ids_with_text_def find_filter_hd)
qed

lemma ids_with_text_mem:
  "k \<in> set (ids_with_text fragments v) \<longleftrightarrow> (k, v) \<in> set fragments"
  by (force simp: ids_with_text_def)

lemma grouped_nonempty:
  assumes "grouped fragments groups" "g \<in> set groups"
  shows "snd g \<noteq> []"
proof -
  have "fst g \<in> snd ` set fragments" using assms by (auto simp: grouped_def)
  then obtain k where "(k, fst g) \<in> set fragments" by auto
  then have "k \<in> set (ids_with_text fragments (fst g))" by (simp add: ids_with_text_mem)
  moreover have "snd g = ids_with_text fragments (fst g)" using assms by (simp add: grouped_def)
  ultimately show ?thesis by auto
qed

lemma grouped_apart:
  assumes "grouped fragments groups" "distinct (map fst fragments)"
  shows "apart groups"
proof -
  have d: "distinct groups" using assms(1) by (auto simp: grouped_def distinct_map)
  have "g = h" if g: "g \<in> set groups" and h: "h \<in> set groups"
    and ne: "set (snd g) \<inter> set (snd h) \<noteq> {}" for g h
  proof -
    from ne obtain k where "k \<in> set (snd g)" "k \<in> set (snd h)" by auto
    moreover have "snd g = ids_with_text fragments (fst g)" "snd h = ids_with_text fragments (fst h)"
      using assms(1) g h by (simp_all add: grouped_def)
    ultimately have "(k, fst g) \<in> set fragments" "(k, fst h) \<in> set fragments"
      by (simp_all add: ids_with_text_mem)
    then have "fst g = fst h" using assms(2) by (rule eq_key_imp_eq_value[rotated])
    then show "g = h"
      using \<open>snd g = _\<close> \<open>snd h = _\<close> by (simp add: prod_eq_iff)
  qed
  then show ?thesis using d by (auto simp: apart_def)
qed

lemma deduplicate_content_spec:
  assumes dist: "distinct (map fst fragments)"
  shows "\<exists>unique dupMap.
     (deduplicate_content fragments :: 'c error + _) = Inr (unique, dupMap) \<and>
     distinct (map fst unique) \<and> distinct (map fst dupMap) \<and>
     fst ` set dupMap = fst ` set fragments \<and>
     (\<forall>kv \<in> set fragments. map_of dupMap (fst kv) = first_id_with_text fragments (snd kv)) \<and>
     (\<forall>k r. map_of dupMap k = Some r \<longrightarrow> map_of dupMap r = Some r) \<and>
     (\<forall>k r. map_of dupMap k = Some r \<longrightarrow>
         map_of fragments k \<noteq> None \<and> map_of fragments k = map_of fragments r) \<and>
     fst ` set unique = {r. \<exists>k. map_of dupMap k = Some r} \<and>
     (\<forall>r \<in> fst ` set unique. map_of unique r = map_of fragments r)"
proof -
  let ?G = "group_content fragments []"
  let ?u = "unique_of ?G []" and ?d = "dups_of ?G []"
  have gr: "grouped fragments ?G" by (rule group_content_init)
  have ne: "\<forall>g \<in> set ?G. snd g \<noteq> []" using grouped_nonempty[OF gr] by blast
  have ap: "apart ?G" using grouped_apart[OF gr dist] .
  have run: "(deduplicate_content fragments :: 'c error + _) = Inr (?u, ?d)"
    unfolding deduplicate_content_def by (rule assign_reps_folds[OF ne])
  have grp: "(v, ids_with_text fragments v) \<in> set ?G" if "(k, v) \<in> set fragments" for k v
  proof -
    have "v \<in> fst ` set ?G" using gr that by (force simp: grouped_def)
    then obtain ks where m: "(v, ks) \<in> set ?G" by auto
    then have "ks = ids_with_text fragments v" using gr by (auto simp: grouped_def)
    then show ?thesis using m by simp
  qed
  have rep: "map_of ?d k = Some (hd (ids_with_text fragments v))"
    if "(k, v) \<in> set fragments" for k v
    using dups_of_member[OF ap grp[OF that], of k "[]"] that by (simp add: ids_with_text_mem)
  have hd_mem: "(hd (ids_with_text fragments v), v) \<in> set fragments"
    if "(k, v) \<in> set fragments" for k v
  proof -
    have "ids_with_text fragments v \<noteq> []" using that ids_with_text_mem[of k fragments v] by auto
    then have "hd (ids_with_text fragments v) \<in> set (ids_with_text fragments v)" by simp
    then show ?thesis by (simp add: ids_with_text_mem)
  qed
  have keys_d: "fst ` set ?d = fst ` set fragments"
  proof -
    have "(\<Union>g \<in> set ?G. set (snd g)) = fst ` set fragments"
    proof (rule set_eqI)
      fix k
      show "k \<in> (\<Union>g \<in> set ?G. set (snd g)) \<longleftrightarrow> k \<in> fst ` set fragments"
      proof
        assume "k \<in> (\<Union>g \<in> set ?G. set (snd g))"
        then obtain g where g: "g \<in> set ?G" "k \<in> set (snd g)" by auto
        then have "snd g = ids_with_text fragments (fst g)" using gr by (simp add: grouped_def)
        then have "(k, fst g) \<in> set fragments" using g by (simp add: ids_with_text_mem)
        then show "k \<in> fst ` set fragments" by force
      next
        assume "k \<in> fst ` set fragments"
        then obtain v where kv: "(k, v) \<in> set fragments" by auto
        then have "k \<in> set (ids_with_text fragments v)" by (simp add: ids_with_text_mem)
        then show "k \<in> (\<Union>g \<in> set ?G. set (snd g))" using grp[OF kv] by force
      qed
    qed
    then show ?thesis by (simp add: dups_of_keys)
  qed
  have some_d: "\<exists>v. (k, v) \<in> set fragments \<and> r = hd (ids_with_text fragments v)"
    if "map_of ?d k = Some r" for k r
  proof -
    have "(k, r) \<in> set ?d" using that by (rule map_of_SomeD)
    then have "k \<in> fst ` set ?d" by force
    then obtain v where kv: "(k, v) \<in> set fragments" using keys_d by auto
    then show ?thesis using rep[OF kv] that by auto
  qed
  have c1: "\<forall>kv \<in> set fragments. map_of ?d (fst kv) = first_id_with_text fragments (snd kv)"
  proof
    fix kv assume kv: "kv \<in> set fragments"
    then have "(fst kv, snd kv) \<in> set fragments" by simp
    from rep[OF this] first_id_with_text_hd[of "snd kv" fragments] kv
    show "map_of ?d (fst kv) = first_id_with_text fragments (snd kv)" by simp
  qed
  have c2: "\<forall>k r. map_of ?d k = Some r \<longrightarrow> map_of ?d r = Some r"
  proof (intro allI impI)
    fix k r assume "map_of ?d k = Some r"
    then obtain v where v: "(k, v) \<in> set fragments" "r = hd (ids_with_text fragments v)"
      using some_d by blast
    from rep[OF hd_mem[OF v(1)]] v(2) show "map_of ?d r = Some r" by simp
  qed
  have c3: "\<forall>k r. map_of ?d k = Some r \<longrightarrow>
      map_of fragments k \<noteq> None \<and> map_of fragments k = map_of fragments r"
  proof (intro allI impI)
    fix k r assume "map_of ?d k = Some r"
    then obtain v where v: "(k, v) \<in> set fragments" "r = hd (ids_with_text fragments v)"
      using some_d by blast
    have "map_of fragments k = Some v" using dist v(1) by simp
    moreover have "map_of fragments r = Some v" using dist hd_mem[OF v(1)] v(2) by simp
    ultimately show "map_of fragments k \<noteq> None \<and> map_of fragments k = map_of fragments r"
      by simp
  qed
  have keys_u: "fst ` set ?u = (\<lambda>g. hd (snd g)) ` set ?G" by (simp add: unique_of_keys)
  have c4: "fst ` set ?u = {r. \<exists>k. map_of ?d k = Some r}"
  proof (rule set_eqI)
    fix r
    show "r \<in> fst ` set ?u \<longleftrightarrow> r \<in> {r. \<exists>k. map_of ?d k = Some r}"
    proof
      assume "r \<in> fst ` set ?u"
      then obtain g where g: "g \<in> set ?G" "r = hd (snd g)" using keys_u by auto
      then have "r \<in> set (snd g)" using ne by simp
      from dups_of_member[OF ap g(1) this, of "[]"] g(2)
      show "r \<in> {r. \<exists>k. map_of ?d k = Some r}" by auto
    next
      assume "r \<in> {r. \<exists>k. map_of ?d k = Some r}"
      then obtain k where "map_of ?d k = Some r" by auto
      then obtain v where v: "(k, v) \<in> set fragments" "r = hd (ids_with_text fragments v)"
        using some_d by blast
      have "r = (\<lambda>g. hd (snd g)) (v, ids_with_text fragments v)" using v(2) by simp
      then show "r \<in> fst ` set ?u" unfolding keys_u using grp[OF v(1)] by (rule image_eqI)
    qed
  qed
  have c5: "\<forall>r \<in> fst ` set ?u. map_of ?u r = map_of fragments r"
  proof
    fix r assume "r \<in> fst ` set ?u"
    then obtain g where g: "g \<in> set ?G" "r = hd (snd g)" using keys_u by auto
    have sg: "snd g = ids_with_text fragments (fst g)" using gr g(1) by (simp add: grouped_def)
    have "r \<in> set (snd g)" using g ne by simp
    then have "(r, fst g) \<in> set fragments" using sg by (simp add: ids_with_text_mem)
    then have "map_of fragments r = Some (fst g)" using dist by simp
    moreover have "map_of ?u r = Some (fst g)"
      using unique_of_member[OF ap ne g(1), of "[]"] g(2) by simp
    ultimately show "map_of ?u r = map_of fragments r" by simp
  qed
  have du: "distinct (map fst ?u)" by (simp add: unique_of_distinct)
  have dd: "distinct (map fst ?d)" by (simp add: dups_of_distinct)
  show ?thesis using run du dd keys_d c1 c2 c3 c4 c5 by blast
qed

text \<open>
  Claim C7.  For a fragment set (a dictionary, so its ids are distinct) \<open>deduplicate_content\<close>
  returns a pair \<open>(unique, dupMap)\<close>, and never raises.  \<open>dupMap\<close> is defined on exactly
  the ids of the input and maps every id to the first-encountered id with the same text;
  every representative maps to itself; an id and its representative have the same text;
  the ids of \<open>unique\<close> are exactly the representatives, each with its own text.
\<close>

theorem deduplicate_content_representatives:
  assumes dist: "distinct (map fst fragments)"
  shows "\<exists>unique dupMap.
     (deduplicate_content fragments :: 'c error + _) = Inr (unique, dupMap) \<and>
     distinct (map fst unique) \<and> distinct (map fst dupMap) \<and>
     fst ` set dupMap = fst ` set fragments \<and>
     (\<forall>kv \<in> set fragments. map_of dupMap (fst kv) = first_id_with_text fragments (snd kv)) \<and>
     (\<forall>k r. map_of dupMap k = Some r \<longrightarrow> map_of dupMap r = Some r) \<and>
     (\<forall>k r. map_of dupMap k = Some r \<longrightarrow>
         map_of fragments k \<noteq> None \<and> map_of fragments k = map_of fragments r) \<and>
     fst ` set unique = {r. \<exists>k. map_of dupMap k = Some r} \<and>
     (\<forall>r \<in> fst ` set unique. map_of unique r = map_of fragments r)"
  using dist by (rule deduplicate_content_spec)

theorem deduplicate_content_representatives_witness:
  "distinct (map fst [(''s1'', ''Hello''), (''s2'', ''World''), (''s3'', ''Hello'')]) \<and>
   (deduplicate_content [(''s1'', ''Hello''), (''s2'', ''World''), (''s3'', ''Hello'')]
      :: char error + _) =
     Inr ([(''s1'', ''Hello''), (''s2'', ''World'')],
          [(''s1'', ''s1''), (''s3'', ''s1''), (''s2'', ''s2'')]) \<and>
   first_id_with_text [(''s1'', ''Hello''), (''s2'', ''World''), (''s3'', ''Hello'')] ''Hello''
     = Some ''s1''"
proof -
  let ?F = "[(''s1'', ''Hello''), (''s2'', ''World''), (''s3'', ''Hello'')]"
  have d: "distinct (map fst ?F)" by simp
  have e: "(deduplicate_content ?F :: char error + _) =
     Inr ([(''s1'', ''Hello''), (''s2'', ''World'')],
          [(''s1'', ''s1''), (''s3'', ''s1''), (''s2'', ''s2'')])"
    by (simp add: deduplicate_content_def)
  from deduplicate_content_representatives[OF d, where 'c = char]
  obtain u dm where run: "(deduplicate_content ?F :: char error + _) = Inr (u, dm)"
    and m: "\<forall>kv \<in> set ?F. map_of dm (fst kv) = first_id_with_text ?F (snd kv)"
    by (elim exE conjE) (rule that)
  from run e have dm: "dm = [(''s1'', ''s1''), (''s3'', ''s1''), (''s2'', ''s2'')]" by simp
  from m have "map_of dm ''s3'' = first_id_with_text ?F ''Hello''" by simp
  then have "first_id_with_text ?F ''Hello'' = Some ''s1''" unfolding dm by simp
  then show ?thesis using d e by simp
qed

lemma text_cost_le: "text_cost b \<le> batch_cost b"
proof (induction b)
  case Nil
  then show ?case by (simp add: text_cost_def batch_cost_def)
next
  case (Cons kv b)
  have "estimate_tokens (Some (snd kv)) \<le> item_tokens kv"
    using estimate_tokens_pos[of "fst kv"] by (simp add: item_tokens_def)
  then show ?case using Cons by (simp add: text_cost_def batch_cost_def)
qed

lemma sort_key_keys_distinct:
  "distinct (map fst xs) \<Longrightarrow> distinct (map fst (sort_key f xs))"
proof -
  assume "distinct (map fst xs)"
  moreover have "mset (map fst (sort_key f xs)) = mset (map fst xs)" by simp
  ultimately show ?thesis by (metis mset_eq_imp_distinct_iff)
qed


text \<open>
  Claim C4, as the code has it.  For every batch the partitioner produces, the prompt
  overhead plus the cost of its members (for each member the estimate of its id, the
  estimate of its text and 10; at least the sum of the estimates of the texts) does not
  exceed \<open>max_input_tokens\<close>, except for a batch of a single fragment whose cost together
  with the prompt overhead exceeds \<open>max_input_tokens\<close>.  The partitioner is a total function:
  the loop visits each fragment once.
\<close>

theorem batches_within_budget:
  assumes "distinct (map fst input_dict)"
    and "split_dict_into_smart_batches input_dict max_input_tokens prompt_tokens = Inr batches"
  shows "\<forall>b \<in> set batches.
           prompt_tokens + text_cost b \<le> prompt_tokens + batch_cost b \<and>
           (prompt_tokens + batch_cost b \<le> max_input_tokens \<or>
            (length b = 1 \<and> prompt_tokens + batch_cost b > max_input_tokens))"
proof -
  let ?items = "sort_key (\<lambda>x. - estimate_tokens (Some (snd x))) input_dict"
  have b: "batches = batch_loop max_input_tokens prompt_tokens ?items [] [] prompt_tokens"
    using assms(2) by (simp add: split_dict_into_smart_batches_def Let_def split: if_splits)
  have d: "distinct (map fst ([] @ ?items))" using sort_key_keys_distinct[OF assms(1)] by simp
  have "list_all (within_budget max_input_tokens prompt_tokens) batches"
    unfolding b by (rule batch_loop_budget[OF d]) (simp_all add: batch_cost_def)
  then show ?thesis using text_cost_le by (auto simp: list_all_iff within_budget_def)
qed

theorem batches_within_budget_witness:
  "distinct (map fst [(''k1'', ''abcdefgh''), (''k2'', ''abcd'')]) \<and>
   split_dict_into_smart_batches [(''k1'', ''abcdefgh''), (''k2'', ''abcd'')] 30 5 =
     Inr [[(''k1'', ''abcdefgh'')], [(''k2'', ''abcd'')]] \<and>
   5 + batch_cost [(''k1'', ''abcdefgh'')] \<le> 30 \<and>
   5 + batch_cost [(''k2'', ''abcd'')] \<le> 30"
proof -
  have d: "distinct (map fst [(''k1'', ''abcdefgh''), (''k2'', ''abcd'')])" by simp
  have s: "split_dict_into_smart_batches [(''k1'', ''abcdefgh''), (''k2'', ''abcd'')] 30 5 =
     Inr [[(''k1'', ''abcdefgh'')], [(''k2'', ''abcd'')]]"
    by (simp add: split_dict_into_smart_batches_def item_tokens_def estimate_tokens_def)
  show ?thesis using d s batches_within_budget[OF d s]
    by (simp add: batch_cost_def item_tokens_def estimate_tokens_def)
qed

text \<open>
  Claim C4 as stated fails: the exception is not limited to a fragment whose own estimate
  exceeds \<open>max_input_tokens\<close>.  With the limits of \<open>translate_text\<close> (150000 and 2000) a text
  of 596000 characters is estimated at 149001 tokens, below the ceiling, and still forms a
  batch whose texts plus the prompt overhead exceed it.
\<close>

theorem oversized_exception_counterexample:
  "split_dict_into_smart_batches [(''k'', replicate 596000 (CHR ''a''))] 150000 2000 =
      Inr [[(''k'', replicate 596000 (CHR ''a''))]] \<and>
   \<not> (2000 + text_cost [(''k'', replicate 596000 (CHR ''a''))] \<le> 150000) \<and>
   \<not> (estimate_tokens (Some (replicate 596000 (CHR ''a''))) > 150000)"
  by (simp add: split_dict_into_smart_batches_def item_tokens_def estimate_tokens_def text_cost_def)

text \<open>
  Claim C8 as stated fails on the empty string: both estimators return 1 for it, not 0.
\<close>

theorem estimate_empty_counterexample:
  "estimate_tokens_cjk (Some []) \<noteq> 0 \<and> estimate_tokens (Some ([] :: nat list)) \<noteq> 0"
  by (simp add: estimate_tokens_cjk_def estimate_tokens_def)

text \<open>
  Claim C8, as the code has it.  The estimate is 0 for \<open>None\<close> and at least 1 for every
  string, the empty string included (exactly 1 there).  The language-aware estimator counts
  the code points strictly between \<open>0x4E00\<close> and \<open>0x9FFF\<close> as wide and the others as narrow,
  and returns \<open>narrow div 4 + (2 * wide) div 3 + 1\<close>, which lies between
  \<open>narrow/4 + wide/1.5 - 5/12\<close> and \<open>narrow/4 + wide/1.5 + 1\<close>.  The estimator of \<open>app13.py\<close>
  counts every character as narrow: \<open>length div 4 + 1\<close>.
\<close>

theorem estimate_tokens_approximation:
  "estimate_tokens_cjk None = 0 \<and>
   estimate_tokens_cjk (Some []) = 1 \<and>
   1 \<le> estimate_tokens_cjk (Some s) \<and>
   12 * estimate_tokens_cjk (Some s)
      \<le> 3 * int (length (filter (\<lambda>c. \<not> is_cjk c) s)) + 8 * int (length (filter is_cjk s)) + 12 \<and>
   3 * int (length (filter (\<lambda>c. \<not> is_cjk c) s)) + 8 * int (length (filter is_cjk s))
      \<le> 12 * estimate_tokens_cjk (Some s) + 5 \<and>
   estimate_tokens (None :: 'c list option) = 0 \<and>
   estimate_tokens (Some ([] :: 'c list)) = 1 \<and>
   estimate_tokens (Some t) = int (length t) div 4 + 1 \<and>
   1 \<le> estimate_tokens (Some t)"
proof -
  let ?w = "int (length (filter is_cjk s))"
  let ?n = "int (length (filter (\<lambda>c. \<not> is_cjk c) s))"
  have len: "int (length s) - ?w = ?n"
    using sum_length_filter_compl[of is_cjk s] by simp
  have e: "estimate_tokens_cjk (Some s) = ?n div 4 + (2 * ?w) div 3 + 1"
    using len by (simp add: estimate_tokens_cjk_def Let_def)
  have n0: "0 \<le> ?n" and w0: "0 \<le> ?w" by simp_all
  have 1: "1 \<le> estimate_tokens_cjk (Some s)" unfolding e using n0 w0
    by (smt (verit) div_int_pos_iff)
  have 2: "12 * estimate_tokens_cjk (Some s) \<le> 3 * ?n + 8 * ?w + 12" unfolding e by presburger
  have 3: "3 * ?n + 8 * ?w \<le> 12 * estimate_tokens_cjk (Some s) + 5" unfolding e by presburger
  show ?thesis using 1 2 3
    by (simp add: estimate_tokens_cjk_def estimate_tokens_def)
qed

lemma write_all_prefixes:
  "list_all (\<lambda>content. take (length content) (acc @ concat pieces) = content)
            (write_all acc pieces)"
proof (induction pieces arbitrary: acc)
  case Nil
  then show ?case by simp
next
  case (Cons chunk pieces)
  have "list_all (\<lambda>content. take (length content) ((acc @ chunk) @ concat pieces) = content)
          (write_all (acc @ chunk) pieces)" by (rule Cons.IH)
  then show ?case by simp
qed

lemma write_all_last: "last (acc # write_all acc pieces) = acc @ concat pieces"
  by (induction pieces arbitrary: acc) auto

text \<open>
  Claim C9, as the code has it.  \<open>save_recovery_state\<close> overwrites the checkpoint file in
  place: right after \<open>open\<close> the file is empty, from then on it holds a prefix of the new
  serialisation, and when the save completes it holds the new serialisation.  No temporary
  file is written and nothing is renamed.
\<close>

theorem save_overwrites_in_place:
  "hd (save_file_contents pieces previous) = previous \<and>
   save_file_contents pieces previous ! 1 = [] \<and>
   last (save_file_contents pieces previous) = concat pieces \<and>
   list_all (\<lambda>content. take (length content) (concat pieces) = content)
            (tl (save_file_contents pieces previous))"
  using write_all_prefixes[of "[]" pieces] write_all_last[of "[]" pieces]
  by (simp add: save_file_contents_def)

text \<open>
  Claim C9 as stated fails: during a save the file goes through contents that are neither
  the previous checkpoint nor the new one, so a crash there loses the previous checkpoint.
\<close>

theorem save_not_atomic_counterexample:
  "\<not> crash_safe [''{'', ''new'', ''}''] ''{old}'' \<and>
   save_file_contents [''{'', ''new'', ''}''] ''{old}'' = [''{old}'', [], ''{'', ''{new'', ''{new}'']"
  by (simp add: crash_safe_def save_file_contents_def)

lemma repair_json_unfold:
  "repair_json L s =
     (case json_loads L s of
        Inr p \<Rightarrow> Inr p
      | Inl e \<Rightarrow>
          (case json_loads L (repair_text L e s) of
             Inr p \<Rightarrow> Inr p
           | Inl e2 \<Rightarrow>
               if regex_salvage L s \<noteq> [] then Inr (PDict (regex_salvage L s))
               else Inl (JSONDecodeError e)))"
  by (auto simp: repair_json_def Let_def split: sum.splits)

text \<open>
  Claim C6, as the code has it.  The strategies are tried in the order strict parse, parse
  of the repaired text, regex key-value salvage, block extraction: a strict parse that
  succeeds is the result; else a repaired parse that succeeds; else the regex salvage when it
  finds a pair, whatever block extraction would give; else the merged blocks when there are
  any; and an error is raised only when all four have failed.
\<close>

theorem parse_response_cascade:
  "(json_loads L s = Inr p \<longrightarrow> parse_response L s = Inr p) \<and>
   (json_loads L s = Inl e \<longrightarrow> json_loads L (repair_text L e s) = Inr p \<longrightarrow>
      parse_response L s = Inr p) \<and>
   (json_loads L s = Inl e \<longrightarrow> json_loads L (repair_text L e s) = Inl e2 \<longrightarrow>
      regex_salvage L s \<noteq> [] \<longrightarrow>
      parse_response L s = Inr (PDict (regex_salvage L s))) \<and>
   (json_loads L s = Inl e \<longrightarrow> json_loads L (repair_text L e s) = Inl e2 \<longrightarrow>
      regex_salvage L s = [] \<longrightarrow> extract_json_blocks L s = Inr (Some d) \<longrightarrow> d \<noteq> [] \<longrightarrow>
      parse_response L s = Inr (PDict d)) \<and>
   (parse_response L s = Inl err \<longrightarrow>
      (\<exists>e1 e3. json_loads L s = Inl e1 \<and> json_loads L (repair_text L e1 s) = Inl e3 \<and>
         regex_salvage L s = [] \<and>
         (\<forall>m. extract_json_blocks L s = Inr (Some m) \<longrightarrow> m = [])))"
  by (auto simp: parse_response_def repair_json_unfold
           split: sum.splits option.splits if_splits)

lemma lib_ex_simps:
  \<open>json_loads lib_ex = (\<lambda>s.
          if s = block_ex then Inr (PDict [(''a'', JStr ''say "hi"'')])
          else if s = fixed_comma then Inr (PDict [(''a'', JStr ''x'')])
          else if s = block_num then Inr (PDict [(''a'', JOther (- 1))])
          else if s = raw_ex then Inl ''Extra data: line 1 column 21 (char 20)''
          else if s = raw_num then Inl ''Extra data: line 1 column 11 (char 10)''
          else if s = raw_comma
            then Inl ''Expecting property name enclosed in double quotes: line 1 column 11 (char 10)''
          else Inl ''Expecting value: line 1 column 1 (char 0)'')\<close>
  "repair_text lib_ex = (\<lambda>e s. if s = raw_comma then fixed_comma else s)"
  "regex_pairs lib_ex = (\<lambda>s.
          if s = raw_ex then [(''a'', JStr (''say '' @ [CHR 0x5C]))]
          else if s = raw_comma then [(''a'', JStr ''x'')]
          else [])"
  "find_blocks lib_ex = (\<lambda>s.
          if s = raw_ex then [block_ex]
          else if s = raw_num then [block_num]
          else if s = raw_comma then [raw_comma]
          else [])"
  "strip_fences lib_ex = (\<lambda>s. s)"
  "clean_text lib_ex = (\<lambda>s. s)"
  by (simp_all add: lib_ex_def)

lemmas ex_strings = block_ex_def raw_ex_def raw_comma_def fixed_comma_def block_num_def raw_num_def

text \<open>
  Claim C6 as stated fails: the regex salvage is not the last resort.  On \<open>raw_ex\<close> the
  strict and the repaired parse fail, the regex salvage returns the value cut at its first
  escaped quote and that is the result, although block extraction parses the object.
\<close>

theorem regex_before_blocks_counterexample:
  "parse_response lib_ex raw_ex = Inr (PDict [(''a'', JStr (''say '' @ [CHR 0x5C]))]) \<and>
   regex_salvage lib_ex raw_ex = [(''a'', JStr (''say '' @ [CHR 0x5C]))] \<and>
   extract_json_blocks lib_ex raw_ex =
     Inr (Some [(''a'', JStr (''say '' @ [CHR 0x22] @ ''hi'' @ [CHR 0x22]))])"
  by (simp add: parse_response_def repair_json_def regex_salvage_def extract_json_blocks_def
        valid_blocks_def dict_of_def dict_update_def lib_ex_simps ex_strings)

theorem parse_response_cascade_witness:
  \<open>parse_response lib_ex block_ex = Inr (PDict [(''a'', JStr ''say "hi"'')]) \<and>
   parse_response lib_ex raw_comma = Inr (PDict [(''a'', JStr ''x'')]) \<and>
   parse_response lib_ex raw_ex = Inr (PDict (regex_salvage lib_ex raw_ex)) \<and>
   parse_response lib_ex raw_num = Inr (PDict [(''a'', JOther (- 1))]) \<and>
   parse_response lib_ex ''oops'' =
     Inl (JSONDecodeError ''Expecting value: line 1 column 1 (char 0)'') \<and>
   regex_salvage lib_ex ''oops'' = []\<close>
proof -
  note ev = regex_salvage_def extract_json_blocks_def valid_blocks_def dict_of_def
    dict_update_def lib_ex_simps ex_strings
  have c1: \<open>parse_response lib_ex block_ex = Inr (PDict [(''a'', JStr ''say "hi"'')])\<close>
    using parse_response_cascade[where L = lib_ex and s = block_ex]
    by (simp add: ev)
  have c2: "parse_response lib_ex raw_comma = Inr (PDict [(''a'', JStr ''x'')])"
    using parse_response_cascade[where L = lib_ex and s = raw_comma
        and e = "''Expecting property name enclosed in double quotes: line 1 column 11 (char 10)''"
        and p = "PDict [(''a'', JStr ''x'')]"]
    by (simp add: ev)
  have c3: "parse_response lib_ex raw_ex = Inr (PDict (regex_salvage lib_ex raw_ex))"
    using parse_response_cascade[where L = lib_ex and s = raw_ex
        and e = "''Extra data: line 1 column 21 (char 20)''"
        and ?e2.0 = "''Extra data: line 1 column 21 (char 20)''"]
    by (simp add: ev)
  have c4: "parse_response lib_ex raw_num = Inr (PDict [(''a'', JOther (- 1))])"
    using parse_response_cascade[where L = lib_ex and s = raw_num
        and e = "''Extra data: line 1 column 11 (char 10)''"
        and ?e2.0 = "''Extra data: line 1 column 11 (char 10)''"
        and d = "[(''a'', JOther (- 1))]"]
    by (simp add: ev)
  have c5: "parse_response lib_ex ''oops'' =
     Inl (JSONDecodeError ''Expecting value: line 1 column 1 (char 0)'')"
    by (simp add: parse_response_def repair_json_def ev)
  have c6: "regex_salvage lib_ex ''oops'' = []"
    using parse_response_cascade[where L = lib_ex and s = "''oops''"
        and err = "JSONDecodeError ''Expecting value: line 1 column 1 (char 0)''"] c5
    by blast
  show ?thesis using c1 c2 c3 c4 c5 c6 by (intro conjI)
qed

lemma dict_update_keys: "fst ` set (dict_update d other) = fst ` set d \<union> fst ` set other"
  unfolding dict_update_def
  by (induction other arbitrary: d) (auto simp: AList.dom_update)

lemma dict_update_distinct:
  "distinct (map fst d) \<Longrightarrow> distinct (map fst (dict_update d other))"
  unfolding dict_update_def
  by (induction other arbitrary: d) (auto simp: AList.distinct_update)


lemma tkeys_update [simp]:
  "tkeys (s\<lparr>translated_items := dict_update (translated_items s) res\<rparr>) = tkeys s \<union> fst ` set res"
  by (simp add: tkeys_def dict_update_keys)

lemma tkeys_other [simp]:
  "tkeys (s\<lparr>completed_batches := cb\<rparr>) = tkeys s"
  "tkeys (s\<lparr>failed_batches := fbs\<rparr>) = tkeys s"
  "tkeys (s\<lparr>duplicates_map := dm\<rparr>) = tkeys s"
  by (simp_all add: tkeys_def)



lemma save_checkpoints:
  assumes "save_recovery_state L x = (None, r')"
  shows "checkpoints r' = checkpoints x @ [state x]"
  using assms by (auto simp: save_recovery_state_def split: prod.splits option.splits)


lemma in_step_world [simp]: "in_step (r\<lparr>world := w\<rparr>) = in_step r"
  by (simp add: in_step_def)



lemma grows_refl [simp]: "grows r r"
  by (simp add: grows_def)


















































lemma big_length [simp]: "length (big c) = 600000"
  by (simp add: big_def)

lemma big_eq [simp]: "(big c = big d) = (c = d)"
  by (simp add: big_def)

lemma big_not_Nil [simp]: "big c \<noteq> []"
  by (simp add: big_def)

lemma dedupe_text3_ex: "(deduplicate_content text3_ex :: char error + _) =
   Inr (text3_ex, [(''a'', ''a''), (''b'', ''b''), (''c'', ''c'')])"
  by (simp add: deduplicate_content_def text3_ex_def)

lemma split_text3_ex: "split_dict_into_smart_batches text3_ex 150000 2000 =
   Inr [[(''a'', big (CHR ''x''))], [(''b'', big (CHR ''y''))], [(''c'', big (CHR ''z''))]]"
  by (simp add: split_dict_into_smart_batches_def item_tokens_def estimate_tokens_def text3_ex_def)

lemma attempt_single:
  "k = ''a'' \<or> k = ''b'' \<or> k = ''c'' \<Longrightarrow>
   attempt lib_ok be_ex (BatchRequest b [(k, v)]) w = (Inr [(k, JStr ''ok'')], w)"
  by (auto simp: attempt_def be_ex_def answer_def lib_ok_def parse_response_def reply_def
        clean_values_def)

lemma translate_batch_single:
  "k = ''a'' \<or> k = ''b'' \<or> k = ''c'' \<Longrightarrow>
   translate_batch lib_ok be_ex (BatchRequest b [(k, v)]) n w = (Inr [(k, JStr ''ok'')], w)"
  by (cases n) (simp_all add: attempt_single)

lemma attempt_final_two:
  "attempt lib_ok be_ex (FinalRequest (kv1 # kv2 # rest)) w =
     (Inl (APIError ''request too large''), w)"
  by (simp add: attempt_def be_ex_def answer_def)

lemma save_lib_ok [simp]:
  "save_recovery_state lib_ok r = (None, r\<lparr>checkpoints := checkpoints r @ [state r]\<rparr>)"
  by (simp add: save_recovery_state_def lib_ok_def)

lemma create_lib_ok [simp]: "create_recovery_file lib_ok resume_file w = (None, w)"
  by (simp add: create_recovery_file_def lib_ok_def split: option.splits)

lemmas orchestration_defs =
  translate_text_def prepare_def setup_recovery_system_def
  translating_step_def add_result_def record_failure_def
  reconcile_failures_def expand_duplicates_def final_sweep_def
  dict_update_def dict_of_def has_key_def Let_def

text \<open>
  Claim C2 at a failing input.  With the backend \<open>be_ex\<close>, the job on \<open>text3_ex\<close> run from
  start to end translates its three fragments in three batches.  Resumed from the checkpoint
  written after the first batch it returns the translation of the first fragment only: the
  resume path takes the ids that are \<^emph>\<open>not\<close> representatives for the deduplicated set, finds
  nothing left to translate, and hands both remaining fragments to the final sweep in one
  request, which the backend refuses.
\<close>

theorem resumed_job_loses_batches:
  "map_sum id fst (translate_text lib_ok be_ex text3_ex None ()) =
     Inr [(''a'', JStr ''ok''), (''b'', JStr ''ok''), (''c'', JStr ''ok'')] \<and>
   map_sum id (\<lambda>p. checkpoints (snd p) ! 2) (translate_text lib_ok be_ex text3_ex None ()) =
     Inr checkpoint_ex \<and>
   map_sum id fst (translate_text lib_ok be_ex text3_ex (Some checkpoint_ex) ()) =
     Inr [(''a'', JStr ''ok'')]"
proof -
  have 1: "map_sum id fst (translate_text lib_ok be_ex text3_ex None ()) =
     Inr [(''a'', JStr ''ok''), (''b'', JStr ''ok''), (''c'', JStr ''ok'')]"
    by (simp add: orchestration_defs dedupe_text3_ex split_text3_ex translate_batch_single) (simp add: text3_ex_def)
  have 2: "map_sum id (\<lambda>p. checkpoints (snd p) ! 2) (translate_text lib_ok be_ex text3_ex None ())
     = Inr checkpoint_ex"
    by (simp add: orchestration_defs dedupe_text3_ex split_text3_ex translate_batch_single checkpoint_ex_def)
       (simp add: text3_ex_def)
  have 3: "map_sum id fst (translate_text lib_ok be_ex text3_ex (Some checkpoint_ex) ()) =
     Inr [(''a'', JStr ''ok'')]"
    by (simp add: orchestration_defs checkpoint_ex_def text3_ex_def attempt_final_two)
  show ?thesis using 1 2 3 by (intro conjI)
qed

text \<open>
  Claim C1 at a failing input.  With the backend down, the only batch fails its three
  attempts and is recorded in \<open>failed_batches\<close> (third checkpoint); its single sub-batch fails
  its four attempts; the entry is removed all the same (fourth checkpoint and final state),
  and nothing is translated.
\<close>

theorem failed_batch_dropped_after_failed_retry:
  "translate_text lib_ok be_down [(''a'', ''x'')] None () =
     Inr ([],
       \<lparr>state =
          \<lparr>completed_batches = [], failed_batches = [], translated_items = [],
           duplicates_map = Some [(''a'', ''a'')]\<rparr>,
        unique_translated_dict = [],
        checkpoints =
          [\<lparr>completed_batches = [], failed_batches = [], translated_items = [],
            duplicates_map = None\<rparr>,
           \<lparr>completed_batches = [], failed_batches = [], translated_items = [],
            duplicates_map = Some [(''a'', ''a'')]\<rparr>,
           \<lparr>completed_batches = [],
            failed_batches =
              [\<lparr>batch_id = Batch 1, keys = [''a''], error = APIError ''overloaded''\<rparr>],
            translated_items = [], duplicates_map = Some [(''a'', ''a'')]\<rparr>,
           \<lparr>completed_batches = [], failed_batches = [], translated_items = [],
            duplicates_map = Some [(''a'', ''a'')]\<rparr>],
        world = ()\<rparr>)"
  by code_simp




























lemma big_neq_single [simp]: "big c \<noteq> [d]" "[d] \<noteq> big c"
proof -
  have "length (big c) \<noteq> length [d]" by simp
  then show "big c \<noteq> [d]" "[d] \<noteq> big c" by fastforce+
qed














text \<open>
  A direct call of \<open>split_dict_into_smart_batches\<close> on the empty dictionary does not return:
  the last line of its summary divides by the number of items.  Every call of it in the
  repository, the one of \<open>translate_text\<close> in \<open>app13.py\<close> and in each of the \<open>pptx\<close>
  variants, is made in the \<open>else\<close> branch of \<open>if not remaining_dict\<close>, so never on the
  empty dictionary.
\<close>

lemma split_dict_into_smart_batches_empty:
  "split_dict_into_smart_batches [] max_input_tokens prompt_tokens = Inl ZeroDivisionError"
  by (simp add: split_dict_into_smart_batches_def)



end
